theory Spec2Isabelle
  imports Main "HOL-Library.Sublist"
begin

section \<open>Shell primitives used by the scripts\<close>

text \<open>
  The repository is one Python file, \<^verbatim>\<open>xx.py\<close>, whose dictionary \<^verbatim>\<open>files\<close> holds four
  prompt texts and three bash scripts (\<^verbatim>\<open>ralph.sh\<close>, \<^verbatim>\<open>run_gauntlet.sh\<close>,
  \<^verbatim>\<open>run_review.sh\<close>), and whose function \<^verbatim>\<open>create_council_zip\<close> writes them to disk and
  into an archive. Strings are byte lists: a character of the scripts beyond ASCII is the
  sequence of its UTF-8 bytes, as bash sees it.
\<close>

definition NL :: char where
  "NL = CHR 0x0A"

definition NUL :: char where
  "NUL = CHR 0x00"

text \<open>Command substitution \<^verbatim>\<open>$(cmd)\<close>: bash reads the output of the command, leaves out every
  NUL byte (a shell variable cannot hold one), and removes every trailing newline of what
  remains.\<close>

definition cmd_subst :: "string \<Rightarrow> string" where
  "cmd_subst raw = rev (dropWhile (\<lambda>c. c = NL) (rev (filter (\<lambda>c. c \<noteq> NUL) raw)))"

text \<open>The bash builtin \<^verbatim>\<open>echo "$x"\<close> with one argument. An argument that is a dash followed
  by one or more of the letters n, e, E is taken as options and not printed; \<^verbatim>\<open>-n\<close>
  suppresses the final newline. Backslash escapes are not interpreted (no \<^verbatim>\<open>-e\<close> takes
  effect on a following argument, as there is none).\<close>

definition echo_flag :: "char \<Rightarrow> bool" where
  "echo_flag c = (c = CHR ''n'' \<or> c = CHR ''e'' \<or> c = CHR ''E'')"

definition is_echo_option :: "string \<Rightarrow> bool" where
  "is_echo_option a =
     (case a of
        [] \<Rightarrow> False
      | c # fs \<Rightarrow> c = CHR ''-'' \<and> fs \<noteq> [] \<and> list_all echo_flag fs)"

definition bash_echo :: "string \<Rightarrow> string" where
  "bash_echo a =
     (if is_echo_option a then (if CHR ''n'' \<in> set a then [] else [NL])
      else a @ [NL])"

text \<open>\<^verbatim>\<open>grep\<close> reads its input line by line: the text is cut at every newline, and a last
  piece without a newline is a line too when it is not empty.\<close>

fun split_lines :: "string \<Rightarrow> string \<Rightarrow> string list" where
  "split_lines cur [] = (if cur = [] then [] else [cur])"
| "split_lines cur (c # cs) =
     (if c = NL then cur # split_lines [] cs else split_lines (cur @ [c]) cs)"

definition text_lines :: "string \<Rightarrow> string list" where
  "text_lines s = split_lines [] s"

text \<open>The characters with a special meaning in a basic regular expression. A pattern
  without any of them matches a line exactly when it occurs in the line, letter case
  included.\<close>

definition bre_special :: "char \<Rightarrow> bool" where
  "bre_special c =
     (c = CHR 0x5C \<or> c = CHR ''.'' \<or> c = CHR ''*'' \<or> c = CHR ''['' \<or> c = CHR '']''
      \<or> c = CHR ''^'' \<or> c = CHR ''$'')"

text \<open>\<^verbatim>\<open>grep -q "$pat"\<close> on standard input, for a pattern without special characters:
  exit status 0 (here \<open>True\<close>) when some input line contains the pattern.\<close>

definition grep_q :: "string \<Rightarrow> string \<Rightarrow> bool" where
  "grep_q pat input = list_ex (sublist pat) (text_lines input)"

text \<open>Arithmetic expansion \<^verbatim>\<open>$i\<close> of a loop counter: its decimal digits.\<close>

definition digit_char :: "nat \<Rightarrow> char" where
  "digit_char d = char_of (48 + d)"

fun show_nat :: "nat \<Rightarrow> string" where
  "show_nat n = (if n < 10 then [digit_char n] else show_nat (n div 10) @ [digit_char (n mod 10)])"

declare show_nat.simps [simp del]

section \<open>The external engine\<close>

text \<open>
  \<^verbatim>\<open>claude -p "$PROMPT" --print 2>&1\<close> is an external program. It is given a prompt, it may
  read and change the world outside the script (the code under review, its own session
  state), and it ends with the text it wrote to standard output and standard error, merged
  by \<^verbatim>\<open>2>&1\<close>, and an exit status. Neither script looks at the exit status.
\<close>

record engine_result =
  combined_output :: string
  exit_status :: nat

type_synonym 'w engine = "string \<Rightarrow> 'w \<Rightarrow> engine_result \<times> 'w"

section \<open>ralph.sh: the fixer loop\<close>

definition MAX_ITERATIONS :: nat where
  "MAX_ITERATIONS = 10"

definition COMPLETION_MARKER :: string where
  \<open>COMPLETION_MARKER = ''<promise>COMPLETE</promise>''\<close>

text \<open>What the script has done so far: the world the engine acts on, the pieces written to
  standard output, the number of engine invocations and of \<^verbatim>\<open>sleep 2\<close> calls.\<close>

record 'w shell =
  world :: 'w
  stdout :: "string list"
  invocations :: nat
  sleeps :: nat

definition echo_out :: "string \<Rightarrow> 'w shell \<Rightarrow> 'w shell" where
  "echo_out a sh = sh\<lparr>stdout := stdout sh @ [bash_echo a]\<rparr>"

definition MSG_STARTING :: string where
  \<open>MSG_STARTING =
     [CHR 0xC3, CHR 0xB0, CHR 0xC5, CHR 0xB8, CHR 0xE2, CHR 0x80, CHR 0x9D, CHR 0xE2, CHR 0x80,
      CHR 0x9E] @ '' Starting Fixer Loop...''\<close>

definition MSG_FIXED :: string where
  \<open>MSG_FIXED =
     [CHR 0xC3, CHR 0xA2, CHR 0xC5, CHR 0x93, CHR 0xE2, CHR 0x80, CHR 0xA6]
     @ '' Fixes applied and verified.''\<close>

definition MSG_MAX_REACHED :: string where
  \<open>MSG_MAX_REACHED =
     [CHR 0xC3, CHR 0xA2, CHR 0xC5, CHR 0x92] @ '' Max iterations reached.''\<close>

text \<open>The test \<^verbatim>\<open>echo "$output" | grep -q "$COMPLETION_MARKER"\<close> of the loop body.\<close>

definition completion_test :: "string \<Rightarrow> bool" where
  "completion_test output = grep_q COMPLETION_MARKER (bash_echo output)"

text \<open>One pass through the loop body up to the \<^verbatim>\<open>if\<close>: print the iteration line, run the
  engine, keep its text in \<^verbatim>\<open>output\<close>, print it, and test it. The result is the outcome
  of the test and the new state.\<close>

definition ralph_iteration :: "'w engine \<Rightarrow> string \<Rightarrow> nat \<Rightarrow> 'w shell \<Rightarrow> bool \<times> 'w shell" where
  "ralph_iteration claude prompt_content i sh =
     (let sh1 = echo_out (''--- Iteration '' @ show_nat i @ '' ---'') sh;
          r = claude prompt_content (world sh1);
          output = cmd_subst (combined_output (fst r));
          sh2 = echo_out output (sh1\<lparr>world := snd r, invocations := Suc (invocations sh1)\<rparr>)
      in (completion_test output, sh2))"

text \<open>\<^verbatim>\<open>for ((i=1; i<=MAX_ITERATIONS; i++))\<close>, entered with the counter at \<open>i\<close>. The result is
  the exit status of the script and the final state.\<close>

function ralph_loop :: "'w engine \<Rightarrow> nat \<Rightarrow> string \<Rightarrow> nat \<Rightarrow> 'w shell \<Rightarrow> nat \<times> 'w shell" where
  "ralph_loop claude max_iterations prompt_content i sh =
     (if i \<le> max_iterations then
        (case ralph_iteration claude prompt_content i sh of
           (found, sh2) \<Rightarrow>
             if found then (0, echo_out MSG_FIXED sh2)
             else ralph_loop claude max_iterations prompt_content (Suc i)
                    (sh2\<lparr>sleeps := Suc (sleeps sh2)\<rparr>))
      else (1, echo_out MSG_MAX_REACHED sh))"
  by pat_completeness auto
termination
  by (relation "measure (\<lambda>(claude, max_iterations, prompt_content, i, sh). Suc max_iterations - i)")
     auto

declare ralph_loop.simps [simp del]

definition fresh_shell :: "'w \<Rightarrow> 'w shell" where
  "fresh_shell w = \<lparr>world = w, stdout = [], invocations = 0, sleeps = 0\<rparr>"

text \<open>The script with the loop bound as a parameter, and the script as it is (bound 10).
  \<^verbatim>\<open>PROMPT_CONTENT="$1"\<close> is the first argument.\<close>

definition ralph_with :: "'w engine \<Rightarrow> nat \<Rightarrow> string \<Rightarrow> 'w \<Rightarrow> nat \<times> 'w shell" where
  "ralph_with claude max_iterations prompt_content w =
     ralph_loop claude max_iterations prompt_content 1 (echo_out MSG_STARTING (fresh_shell w))"

definition ralph_sh :: "'w engine \<Rightarrow> string \<Rightarrow> 'w \<Rightarrow> nat \<times> 'w shell" where
  "ralph_sh claude prompt_content w = ralph_with claude MAX_ITERATIONS prompt_content w"

text \<open>The engine's text at its \<open>k\<close>-th consecutive invocation with the same prompt, counted
  from 1, starting in world \<open>w\<close>: the notion the statements about iterations refer to.\<close>

fun world_after :: "'w engine \<Rightarrow> string \<Rightarrow> 'w \<Rightarrow> nat \<Rightarrow> 'w" where
  "world_after claude p w 0 = w"
| "world_after claude p w (Suc n) = snd (claude p (world_after claude p w n))"

definition output_at :: "'w engine \<Rightarrow> string \<Rightarrow> 'w \<Rightarrow> nat \<Rightarrow> string" where
  "output_at claude p w k = combined_output (fst (claude p (world_after claude p w (k - 1))))"

text \<open>The text the script holds in \<^verbatim>\<open>output\<close> at iteration \<open>k\<close>: what the command substitution
  delivers of the engine's text. This is the output of the engine as the script sees it.\<close>

definition captured_at :: "'w engine \<Rightarrow> string \<Rightarrow> 'w \<Rightarrow> nat \<Rightarrow> string" where
  "captured_at claude p w k = cmd_subst (output_at claude p w k)"

text \<open>The terminal states of the loop controller, read off the exit status.\<close>

datatype terminal_status = Completed | Exhausted

definition status_of_exit :: "nat \<Rightarrow> terminal_status" where
  "status_of_exit e = (if e = 0 then Completed else Exhausted)"


text \<open>Engines for examples. Their world is the number of invocations made so far. The
  first writes the marker inside other text at invocation \<open>k\<close> and only there; the second
  writes it alone on standard output at invocation \<open>k\<close>.\<close>

definition stub_engine :: "nat \<Rightarrow> nat engine" where
  \<open>stub_engine k p n =
     (\<lparr>combined_output =
         (if Suc n = k then ''All done.\<newline><promise>COMPLETE</promise>\<newline>''
          else ''Still working on the findings.\<newline>''),
       exit_status = 0\<rparr>, Suc n)\<close>

definition obedient_engine :: "nat \<Rightarrow> nat engine" where
  \<open>obedient_engine k p n =
     (\<lparr>combined_output =
         (if Suc n = k then ''<promise>COMPLETE</promise>'' else ''Fixed one more file.''),
       exit_status = 0\<rparr>, Suc n)\<close>

section \<open>run_gauntlet.sh: the review fan-out\<close>

text \<open>
  The script prepares the report file, starts one background job per \<^verbatim>\<open>run_agent\<close> line and
  waits for all of them. What lies outside the script is given by an environment: the text
  produced by the \<^verbatim>\<open>find ... | xargs cat\<close> pipeline for a target directory, the output of
  \<^verbatim>\<open>date\<close>, the output of \<^verbatim>\<open>cat\<close> on a prompt path, and the engine. The background jobs are
  separate processes that call the engine independently of each other: \<open>claude_review env j p\<close>
  is what the call of job \<open>j\<close> (counted from 0) with prompt \<open>p\<close> ends with. The last field says
  for which argument strings the system refuses to execute a program (\<^verbatim>\<open>execve\<close> fails with
  \<^verbatim>\<open>E2BIG\<close>, and bash ends the command with status 126); on Linux these are the strings of
  \<open>MAX_ARG_STRLEN\<close> bytes or more.
\<close>

record review_env =
  find_cat :: "string \<Rightarrow> string"
  date_out :: string
  cat_file :: "string \<Rightarrow> string"
  claude_review :: "nat \<Rightarrow> string \<Rightarrow> engine_result"
  exec_refused :: "string \<Rightarrow> bool"

definition MAX_ARG_STRLEN :: nat where
  "MAX_ARG_STRLEN = 131072"

definition linux_exec_refused :: "string \<Rightarrow> bool" where
  "linux_exec_refused a = (MAX_ARG_STRLEN \<le> length a)"

definition REPORT_FILE :: string where
  \<open>REPORT_FILE = ''COUNCIL_REPORT.md''\<close>

definition PROMPT_DIR :: string where
  \<open>PROMPT_DIR = ''.council/prompts''\<close>

definition SEPARATOR :: string where
  \<open>SEPARATOR = ''------------------------------------------------''\<close>

text \<open>\<^verbatim>\<open>TARGET_DIR="${1:-.}"\<close>: the first argument, or a dot when it is unset or empty.\<close>

definition TARGET_DIR :: "string list \<Rightarrow> string" where
  \<open>TARGET_DIR args = (case args of [] \<Rightarrow> ''.'' | a # rest \<Rightarrow> if a = [] then ''.'' else a)\<close>

definition MSG_READING :: string where
  \<open>MSG_READING =
     [CHR 0xC3, CHR 0xB0, CHR 0xC5, CHR 0xB8, CHR 0xE2, CHR 0x80, CHR 0x9C, CHR 0xE2, CHR 0x80,
      CHR 0x93] @ '' Reading code context...''\<close>

definition MSG_AGENT :: string where
  \<open>MSG_AGENT =
     [CHR 0xC3, CHR 0xB0, CHR 0xC5, CHR 0xB8, CHR 0xC2, CHR 0xA4, CHR 0xE2, CHR 0x80, CHR 0x93]
     @ '' Agent [''\<close>

text \<open>The bytes between \<^verbatim>\<open>## \<close> and \<^verbatim>\<open> Agent: \<close> in the header line of a section, as they
  stand in the script.\<close>

definition AGENT_ICON :: string where
  \<open>AGENT_ICON =
     [CHR 0xC3, CHR 0xB0, CHR 0xC5, CHR 0xB8, CHR 0xE2, CHR 0x80, CHR 0xA2, CHR 0xC2, CHR 0xB5,
      CHR 0xC3, CHR 0xAF, CHR 0xC2, CHR 0xB8]\<close>

definition SECTION_PREFIX :: string where
  \<open>SECTION_PREFIX = ''## '' @ AGENT_ICON @ '' Agent: ''\<close>

definition MSG_ADJOURNED :: string where
  \<open>MSG_ADJOURNED =
     [CHR 0xC3, CHR 0xB0, CHR 0xC5, CHR 0xB8, CHR 0xE2, CHR 0x80, CHR 0x9C, CHR 0xE2, CHR 0x80,
      CHR 0xB9] @ '' Council meeting adjourned. Report generated at ''\<close>

text \<open>A background job running \<^verbatim>\<open>run_agent\<close>: its two arguments, how many of its five
  commands it has run (\<open>job_pc\<close>), and its local variables.\<close>

record agent_job =
  job_name :: string
  job_prompt_path :: string
  job_pc :: nat
  job_full_prompt :: string
  job_result :: string

text \<open>The state of the script. The report file is kept as the sequence of pieces written
  to it, each with its writer: \<open>None\<close> for the script itself, \<open>Some j\<close> for background job
  \<open>j\<close>. The text of the file is the pieces put together.\<close>

record gauntlet =
  target_dir :: string
  code_context :: string
  gauntlet_stdout :: "string list"
  report_file :: "(nat option \<times> string) list"
  jobs :: "agent_job list"

definition report_text :: "gauntlet \<Rightarrow> string" where
  "report_text g = concat (map snd (report_file g))"

text \<open>One \<^verbatim>\<open>echo ... >> $REPORT_FILE\<close>. The file is kept as the list of the pieces appended to it,
  each with the job that wrote it (\<open>None\<close> for the script itself), and one \<^verbatim>\<open>echo\<close> adds one
  piece. The file is opened for appending, so a piece is never written over another one; a
  piece is in one stretch in the file when no other job writes while the \<^verbatim>\<open>echo\<close> is writing
  it, which is the case in every run in which the jobs append in turn (\<open>appends_in_turn\<close>
  below).\<close>

definition append_report :: "nat option \<Rightarrow> string \<Rightarrow> gauntlet \<Rightarrow> gauntlet" where
  "append_report writer a g = g\<lparr>report_file := report_file g @ [(writer, bash_echo a)]\<rparr>"

text \<open>The prompt of a job: the prompt file, a blank line, and the code context between
  tags, with the indentation the script has inside the quotes.\<close>

definition build_full_prompt :: "string \<Rightarrow> string \<Rightarrow> string" where
  \<open>build_full_prompt prompt_text context =
     prompt_text @ ''\<newline>''
     @ ''    \<newline>''
     @ ''    <code_to_review>\<newline>''
     @ ''    '' @ context @ ''\<newline>''
     @ ''    </code_to_review>''\<close>

text \<open>The next command of job \<open>j\<close>. The commands of \<^verbatim>\<open>run_agent\<close> are, in order: the progress
  line on standard output; the engine call, whose text is kept in \<^verbatim>\<open>result\<close>; the section
  header appended to the report; the result appended; the separator appended. A job that
  has finished, or a number that is no job, does nothing.\<close>

definition run_agent_step :: "review_env \<Rightarrow> nat \<Rightarrow> gauntlet \<Rightarrow> gauntlet" where
  \<open>run_agent_step env j g =
     (if j < length (jobs g) then
        (let job = jobs g ! j in
         if job_pc job = 0 then
           g\<lparr>gauntlet_stdout :=
                gauntlet_stdout g @ [bash_echo (MSG_AGENT @ job_name job @ ''] is analyzing...'')],
             jobs := (jobs g)[j := job\<lparr>job_pc := 1\<rparr>]\<rparr>
         else if job_pc job = 1 then
           (let full_prompt =
                  build_full_prompt (cmd_subst (cat_file env (job_prompt_path job))) (code_context g);
                result = cmd_subst (combined_output (claude_review env j full_prompt))
            in g\<lparr>jobs := (jobs g)[j := job\<lparr>job_pc := 2, job_full_prompt := full_prompt,
                                              job_result := result\<rparr>]\<rparr>)
         else if job_pc job = 2 then
           (append_report (Some j) (SECTION_PREFIX @ job_name job) g)
             \<lparr>jobs := (jobs g)[j := job\<lparr>job_pc := 3\<rparr>]\<rparr>
         else if job_pc job = 3 then
           (append_report (Some j) (job_result job) g)
             \<lparr>jobs := (jobs g)[j := job\<lparr>job_pc := 4\<rparr>]\<rparr>
         else if job_pc job = 4 then
           (append_report (Some j) SEPARATOR g)
             \<lparr>jobs := (jobs g)[j := job\<lparr>job_pc := 5\<rparr>]\<rparr>
         else g)
      else g)\<close>

text \<open>The script up to the point where the background jobs are started: the target, the
  code context, the first line on standard output, and the four header lines of the report
  (the first one written with \<^verbatim>\<open>>\<close>, which empties the file).\<close>

definition new_job :: "string \<times> string \<Rightarrow> agent_job" where
  "new_job a = \<lparr>job_name = fst a, job_prompt_path = snd a, job_pc = 0,
                job_full_prompt = [], job_result = []\<rparr>"

definition gauntlet_start :: "review_env \<Rightarrow> (string \<times> string) list \<Rightarrow> string list \<Rightarrow> gauntlet" where
  \<open>gauntlet_start env agents args =
     (let target = TARGET_DIR args in
      \<lparr>target_dir = target,
       code_context = cmd_subst (find_cat env target),
       gauntlet_stdout = [bash_echo MSG_READING],
       report_file =
         [(None, bash_echo ''# Council of Agents Report''),
          (None, bash_echo (''Target: '' @ target)),
          (None, bash_echo (''Date: '' @ cmd_subst (date_out env))),
          (None, bash_echo SEPARATOR)],
       jobs = map new_job agents\<rparr>)\<close>

text \<open>The four \<^verbatim>\<open>run_agent ... &\<close> lines, in the order of the script.\<close>

definition AGENTS :: "(string \<times> string) list" where
  \<open>AGENTS =
     [(''QA Engineer'', PROMPT_DIR @ ''/01_test_qa.md''),
      (''Architect'', PROMPT_DIR @ ''/02_structure_architect.md''),
      (''Librarian'', PROMPT_DIR @ ''/03_naming_librarian.md''),
      (''Domain Warden'', PROMPT_DIR @ ''/04_domain_warden.md'')]\<close>

text \<open>An execution is fixed by a schedule: the list of job numbers in the order in which
  the jobs run their commands, one command per entry. \<^verbatim>\<open>wait\<close> returns when every job has
  run its five commands; a schedule that leaves a job unfinished is no complete execution
  (\<open>None\<close>). The script ends with its last \<^verbatim>\<open>echo\<close>, with exit status 0.\<close>

definition run_schedule :: "review_env \<Rightarrow> nat list \<Rightarrow> gauntlet \<Rightarrow> gauntlet" where
  "run_schedule env sched g = fold (run_agent_step env) sched g"

definition all_done :: "gauntlet \<Rightarrow> bool" where
  "all_done g = list_all (\<lambda>job. job_pc job = 5) (jobs g)"

definition run_gauntlet_with ::
  "review_env \<Rightarrow> (string \<times> string) list \<Rightarrow> string list \<Rightarrow> nat list \<Rightarrow> gauntlet option" where
  "run_gauntlet_with env agents args sched =
     (let g = run_schedule env sched (gauntlet_start env agents args) in
      if all_done g
      then Some (g\<lparr>gauntlet_stdout := gauntlet_stdout g @ [bash_echo (MSG_ADJOURNED @ REPORT_FILE)]\<rparr>)
      else None)"

definition run_gauntlet_sh :: "review_env \<Rightarrow> string list \<Rightarrow> nat list \<Rightarrow> gauntlet option" where
  "run_gauntlet_sh env args sched = run_gauntlet_with env AGENTS args sched"

text \<open>The text of a section and of the report header, as the script writes them.\<close>

definition section_text :: "string \<Rightarrow> string \<Rightarrow> string" where
  "section_text name result =
     bash_echo (SECTION_PREFIX @ name) @ bash_echo result @ bash_echo SEPARATOR"

definition header_text :: "string \<Rightarrow> string \<Rightarrow> string" where
  \<open>header_text target date_text =
     bash_echo ''# Council of Agents Report'' @ bash_echo (''Target: '' @ target)
     @ bash_echo (''Date: '' @ date_text) @ bash_echo SEPARATOR\<close>

text \<open>The appends of a schedule: for every entry at which a job appends to the report,
  the job and the number of commands it has run before (2 for the header, 3 for the
  result, 4 for the separator), in the order of the schedule. \<open>seen\<close> is the part of the
  schedule that has been run. The jobs append in turn, in the order \<open>order\<close>, when no entry
  of another job stands between the three appends of a job.\<close>

fun append_trace :: "nat \<Rightarrow> nat list \<Rightarrow> nat list \<Rightarrow> (nat \<times> nat) list" where
  "append_trace n seen [] = []"
| "append_trace n seen (j # sched) =
     (if j < n \<and> 2 \<le> count_list seen j \<and> count_list seen j < 5
      then [(j, count_list seen j)] else [])
     @ append_trace n (seen @ [j]) sched"

definition appends_in_turn :: "nat \<Rightarrow> nat list \<Rightarrow> nat list \<Rightarrow> bool" where
  "appends_in_turn n sched order =
     (append_trace n [] sched = concat (map (\<lambda>j. [(j, 2), (j, 3), (j, 4)]) order))"

text \<open>A schedule is complete when it lets every job run its five commands.\<close>

definition complete_schedule :: "nat \<Rightarrow> nat list \<Rightarrow> bool" where
  "complete_schedule n sched = list_all (\<lambda>j. 5 \<le> count_list sched j) [0..<n]"

text \<open>What job \<open>j\<close> keeps in \<^verbatim>\<open>result\<close>: the text of its engine call.\<close>

definition agent_result :: "review_env \<Rightarrow> (string \<times> string) list \<Rightarrow> string list \<Rightarrow> nat \<Rightarrow> string" where
  "agent_result env agents args j =
     cmd_subst (combined_output (claude_review env j
       (build_full_prompt (cmd_subst (cat_file env (snd (agents ! j))))
          (cmd_subst (find_cat env (TARGET_DIR args))))))"

text \<open>The report as the specification describes its assembly: the header, then the
  sections in the order in which the agents are registered.\<close>

definition registration_order_report ::
  "review_env \<Rightarrow> (string \<times> string) list \<Rightarrow> string list \<Rightarrow> string" where
  "registration_order_report env agents args =
     header_text (TARGET_DIR args) (cmd_subst (date_out env))
     @ concat (map (\<lambda>j. section_text (fst (agents ! j)) (agent_result env agents args j))
                 [0..<length agents])"

text \<open>The section header as the specification words it.\<close>

definition spec_section_header :: "string \<Rightarrow> string" where
  \<open>spec_section_header name = ''## Agent: '' @ name\<close>

text \<open>An environment for examples: the engine answers each job with a text of its own,
  and the call of job 1 fails with a message on standard error.\<close>

definition example_env :: review_env where
  \<open>example_env =
     \<lparr>find_cat = (\<lambda>d. ''function f(){}\<newline>''),
      date_out = ''Wed Nov  4 10:00:00 UTC 2026\<newline>'',
      cat_file = (\<lambda>p. ''<role>'' @ p @ ''</role>\<newline>''),
      claude_review = (\<lambda>j p.
         if j = 0 then \<lparr>combined_output = ''NO ISSUES FOUND\<newline>'', exit_status = 0\<rparr>
         else if j = 1 then
           \<lparr>combined_output = ''Error: connection refused\<newline>'', exit_status = 1\<rparr>
         else if j = 2 then \<lparr>combined_output = ''Rename f to parse\<newline>'', exit_status = 0\<rparr>
         else \<lparr>combined_output = ''No domain violations\<newline>'', exit_status = 0\<rparr>),
      exec_refused = linux_exec_refused\<rparr>\<close>

text \<open>The same environment with the calls of all jobs but the first failing.\<close>

definition others_fail_env :: review_env where
  \<open>others_fail_env =
     example_env\<lparr>claude_review := (\<lambda>j p.
        if j = 0 then claude_review example_env 0 p
        else \<lparr>combined_output = ''Error: request timed out\<newline>'', exit_status = 124\<rparr>)\<rparr>\<close>

text \<open>The same environment on a system with a small limit on the length of an argument.\<close>

definition small_limit_env :: review_env where
  \<open>small_limit_env = example_env\<lparr>exec_refused := (\<lambda>a. 1024 \<le> length a)\<rparr>\<close>

section \<open>run_review.sh: the driver\<close>

text \<open>The prompt handed to the fixer loop, with the report put in place of
  \<^verbatim>\<open>$REPORT_CONTENT\<close>.\<close>

definition FIXER_PROMPT :: "string \<Rightarrow> string" where
  \<open>FIXER_PROMPT report_content =
     ''I have a code review report in COUNCIL_REPORT.md:\<newline>''
     @ ''\<newline>''
     @ ''<report>\<newline>''
     @ report_content @ ''\<newline>''
     @ ''</report>\<newline>''
     @ ''\<newline>''
     @ ''Your Goal: Fix the code based on these agents' findings.\<newline>''
     @ ''Rules:\<newline>''
     @ ''1. Address the 'Domain Warden' issues first (they are hardest).\<newline>''
     @ ''2. Rename variables as requested by the 'Librarian'.\<newline>''
     @ ''3. Refactor structure as requested by the 'Architect'.\<newline>''
     @ ''4. Finally, update/add tests as requested by the 'QA Engineer'.\<newline>''
     @ ''5. After every file change, run the tests (npm test).\<newline>''
     @ ''6. If tests fail, fix them immediately.\<newline>''
     @ ''\<newline>''
     @ ''When ALL items are addressed and tests pass, output exactly: <promise>COMPLETE</promise>.''\<close>

text \<open>\<^verbatim>\<open>[[ ! $REPLY =~ ^[Yy]$ ]]\<close>, on the character that \<^verbatim>\<open>read -n 1 -r\<close> left in
  \<^verbatim>\<open>REPLY\<close> (empty at end of input or on a bare return).\<close>

definition declined :: "string \<Rightarrow> bool" where
  \<open>declined reply = (reply \<noteq> ''Y'' \<and> reply \<noteq> ''y'')\<close>

text \<open>The result of a run of the driver: its exit status, the state in which the review
  script ended, what the driver itself wrote to standard output, and the state in which
  the fixer loop ended when it was run.\<close>

record 'w review_outcome =
  review_exit :: nat
  review_gauntlet :: gauntlet
  review_stdout :: "string list"
  review_fixer :: "'w shell option"

text \<open>The script. Its own arguments appear nowhere in it: the review script is called with
  the one argument \<^verbatim>\<open>"./src"\<close>. The exit status is 1 after a refusal, and otherwise the exit
  status of the last command, \<^verbatim>\<open>./.council/scripts/ralph.sh "$FIXER_PROMPT"\<close>: 126 when the
  system refuses to execute it with that argument, in which case the fixer loop does not
  run at all, and the exit status of \<^verbatim>\<open>ralph.sh\<close> otherwise. A run in which the review script
  does not end has no result (\<open>None\<close>).\<close>

definition run_review_sh ::
  "review_env \<Rightarrow> 'w engine \<Rightarrow> string list \<Rightarrow> nat list \<Rightarrow> string \<Rightarrow> 'w \<Rightarrow> 'w review_outcome option" where
  \<open>run_review_sh env claude args sched reply w =
     (case run_gauntlet_sh env [''./src''] sched of
        None \<Rightarrow> None
      | Some g \<Rightarrow>
          (let out = [bash_echo ''Read the report at COUNCIL_REPORT.md'', bash_echo []] in
           if declined reply then
             Some \<lparr>review_exit = 1, review_gauntlet = g, review_stdout = out, review_fixer = None\<rparr>
           else
             (let report_content = cmd_subst (report_text g) in
              if exec_refused env (FIXER_PROMPT report_content) then
                Some \<lparr>review_exit = 126, review_gauntlet = g, review_stdout = out,
                      review_fixer = None\<rparr>
              else
                (let r = ralph_sh claude (FIXER_PROMPT report_content) w
                 in Some \<lparr>review_exit = fst r, review_gauntlet = g, review_stdout = out,
                          review_fixer = Some (snd r)\<rparr>))))\<close>

section \<open>Notions used to state the properties of the review\<close>

text \<open>The three pieces job \<open>j\<close> appends to the report, with their writer.\<close>

definition section_pieces ::
  "review_env \<Rightarrow> (string \<times> string) list \<Rightarrow> string list \<Rightarrow> nat \<Rightarrow> (nat option \<times> string) list" where
  "section_pieces env agents args j =
     [(Some j, bash_echo (SECTION_PREFIX @ fst (agents ! j))),
      (Some j, bash_echo (agent_result env agents args j)),
      (Some j, bash_echo SEPARATOR)]"

definition report_lines :: "gauntlet option \<Rightarrow> string list" where
  "report_lines r = (case r of None \<Rightarrow> [] | Some g \<Rightarrow> text_lines (report_text g))"

text \<open>Schedules for examples with four jobs. In the first, every job prints its progress
  line and gets its answer, and then the jobs append their sections in the order of the
  script. In the second, after the progress lines, job 1 (Architect) gets its answer and
  appends its section before job 0 (QA Engineer) has its answer. In the third, jobs 0 and 1
  append in turns, line by line.\<close>

definition schedule_in_order :: "nat list" where
  "schedule_in_order = [0, 1, 2, 3, 0, 1, 2, 3, 0, 0, 0, 1, 1, 1, 2, 2, 2, 3, 3, 3]"

definition schedule_architect_first :: "nat list" where
  "schedule_architect_first = [0, 1, 2, 3, 1, 1, 1, 1, 0, 0, 0, 0, 2, 2, 2, 2, 3, 3, 3, 3]"

definition schedule_interleaved :: "nat list" where
  "schedule_interleaved = [0, 1, 2, 3, 0, 1, 2, 3, 0, 1, 0, 1, 0, 1, 2, 2, 2, 3, 3, 3]"

text \<open>What holds of every state the script reaches: the jobs are those of the agent list,
  no job is past its last command, the code context is the one gathered at the start, and
  a job that has made its engine call holds the text of that call in \<^verbatim>\<open>result\<close>.\<close>

definition job_ok ::
  "review_env \<Rightarrow> (string \<times> string) list \<Rightarrow> string list \<Rightarrow> gauntlet \<Rightarrow> nat \<Rightarrow> bool" where
  "job_ok env agents args g j =
     (job_name (jobs g ! j) = fst (agents ! j)
      \<and> job_prompt_path (jobs g ! j) = snd (agents ! j)
      \<and> job_pc (jobs g ! j) \<le> 5
      \<and> (2 \<le> job_pc (jobs g ! j) \<longrightarrow> job_result (jobs g ! j) = agent_result env agents args j))"

definition consistent ::
  "review_env \<Rightarrow> (string \<times> string) list \<Rightarrow> string list \<Rightarrow> gauntlet \<Rightarrow> bool" where
  "consistent env agents args g =
     (length (jobs g) = length agents
      \<and> code_context g = cmd_subst (find_cat env (TARGET_DIR args))
      \<and> (\<forall>j < length agents. job_ok env agents args g j))"


section \<open>xx.py: the files and create_council_zip\<close>

text \<open>
  The values of the dictionary \<^verbatim>\<open>files\<close>, as the raw string literals of the source give them
  (one piece per source line), and the dictionary itself as the list of its items in
  insertion order, which is the order in which Python iterates over it.
\<close>

definition CONTENT_01_TEST_QA :: string where
  \<open>CONTENT_01_TEST_QA =
     ''<role>\<newline>''
     @ ''You are a Senior QA Automation Engineer & SDET. You are skeptical, thorough, and obsessed with failure modes.\<newline>''
     @ ''</role>\<newline>''
     @ ''\<newline>''
     @ ''<objective>\<newline>''
     @ ''Review the provided code specifically for TEST QUALITY. Do not comment on architecture, naming, or style unless it makes testing impossible.\<newline>''
     @ ''</objective>\<newline>''
     @ ''\<newline>''
     @ ''<checklist>\<newline>''
     @ ''1. **Happy Path vs. Edge Cases:** Do tests only check the success state? Are nulls, empty arrays, and error responses tested?\<newline>''
     @ ''2. **Mocking Hygiene:** Are mocks strict? Do they verify arguments? (e.g., `verify(repo.save(any))` is bad; `verify(repo.save(specificUser))` is good).\<newline>''
     @ ''3. **Assertion Specificity:** Are assertions lazy? (e.g., `assertNotNull(response)` vs `assertEquals(200, response.status)`).\<newline>''
     @ ''4. **Setup/Teardown:** Is data leaking between tests?\<newline>''
     @ ''</checklist>\<newline>''
     @ ''\<newline>''
     @ ''<output_format>\<newline>''
     @ ''Output a Markdown list of **Missing Test Cases** and **Weak Assertions**. \<newline>''
     @ ''If the tests are excellent, output "NO ISSUES FOUND".\<newline>''
     @ ''</output_format>''\<close>

definition CONTENT_02_STRUCTURE_ARCHITECT :: string where
  \<open>CONTENT_02_STRUCTURE_ARCHITECT =
     ''<role>\<newline>''
     @ ''You are a Software Architect obsessed with SOLID principles, low coupling, and high cohesion.\<newline>''
     @ ''</role>\<newline>''
     @ ''\<newline>''
     @ ''<objective>\<newline>''
     @ ''Review the provided code for STRUCTURE and LOGIC FLOW. Ignore variable names and test coverage.\<newline>''
     @ ''</objective>\<newline>''
     @ ''\<newline>''
     @ ''<checklist>\<newline>''
     @ ''1. **Single Responsibility:** Does a function/class do too much?\<newline>''
     @ ''2. **DRY (Don't Repeat Yourself):** Is logic copy-pasted? Should it be extracted to a utility?\<newline>''
     @ ''3. **Complexity:** Are there deeply nested `if/else` blocks that should be guard clauses or strategy patterns?\<newline>''
     @ ''4. **Dependency Cycles:** Are modules importing each other in a circle?\<newline>''
     @ ''</checklist>\<newline>''
     @ ''\<newline>''
     @ ''<output_format>\<newline>''
     @ ''Output a Markdown list of **Refactoring Recommendations**. Focus on structural changes, not syntax.\<newline>''
     @ ''If structure is solid, output "NO ISSUES FOUND".\<newline>''
     @ ''</output_format>''\<close>

definition CONTENT_03_NAMING_LIBRARIAN :: string where
  \<open>CONTENT_03_NAMING_LIBRARIAN =
     ''<role>\<newline>''
     @ ''You are a Code Readability Expert and Linguist. You believe code is read 10x more than it is written.\<newline>''
     @ ''</role>\<newline>''
     @ ''\<newline>''
     @ ''<objective>\<newline>''
     @ ''Review the provided code for NAMING and READABILITY. Ignore logic errors and architecture.\<newline>''
     @ ''</objective>\<newline>''
     @ ''\<newline>''
     @ ''<checklist>\<newline>''
     @ ''1. **Intent-Revealing Names:** Does `data` become `userData`? Does `list` become `activeInventoryList`?\<newline>''
     @ ''2. **Boolean Hygiene:** Do booleans sound like questions? (`valid` -> `isValid`, `done` -> `hasCompleted`).\<newline>''
     @ ''3. **Magic Numbers/Strings:** Are there raw numbers in logic that should be named constants?\<newline>''
     @ ''4. **Consistency:** Do we mix `fetch`, `get`, and `retrieve` for the same action?\<newline>''
     @ ''</checklist>\<newline>''
     @ ''\<newline>''
     @ ''<output_format>\<newline>''
     @ ''Output a table with columns: `Current Name` | `Suggested Name` | `Reason`.\<newline>''
     @ ''If naming is perfect, output "NO ISSUES FOUND".\<newline>''
     @ ''</output_format>''\<close>

definition CONTENT_04_DOMAIN_WARDEN :: string where
  \<open>CONTENT_04_DOMAIN_WARDEN =
     ''<role>\<newline>''
     @ ''You are a Domain-Driven Design (DDD) Purist. You protect the integrity of the business domain.\<newline>''
     @ ''</role>\<newline>''
     @ ''\<newline>''
     @ ''<objective>\<newline>''
     @ ''Review the provided code for DOMAIN SEPARATION and LEAKY ABSTRACTIONS.\<newline>''
     @ ''</objective>\<newline>''
     @ ''\<newline>''
     @ ''<checklist>\<newline>''
     @ ''1. **Leaky Abstractions:** Does the Controller know about SQL implementation details? Does the View know about Business Rules?\<newline>''
     @ ''2. **DTO Usage:** Are we passing raw database entities to the client?\<newline>''
     @ ''3. **Business Logic location:** Is business logic inside a UI component or a Controller instead of the Service/Domain layer?\<newline>''
     @ ''4. **Language:** Does the code use the Ubiquitous Language of the business, or generic technical terms?\<newline>''
     @ ''</checklist>\<newline>''
     @ ''\<newline>''
     @ ''<output_format>\<newline>''
     @ ''Output a Markdown list of **Domain Violations**. Explain *why* the separation is broken.\<newline>''
     @ ''If domain boundaries are clean, output "NO ISSUES FOUND".\<newline>''
     @ ''</output_format>''\<close>

definition CONTENT_RALPH_SH :: string where
  \<open>CONTENT_RALPH_SH =
     ''#!/bin/bash\<newline>''
     @ ''MAX_ITERATIONS=10\<newline>''
     @ ''COMPLETION_MARKER="<promise>COMPLETE</promise>"\<newline>''
     @ ''PROMPT_CONTENT="$1"\<newline>''
     @ ''\<newline>''
     @ ''echo "'' @ [CHR 0xC3, CHR 0xB0, CHR 0xC5, CHR 0xB8, CHR 0xE2, CHR 0x80, CHR 0x9D, CHR 0xE2, CHR 0x80, CHR 0x9E] @ '' Starting Fixer Loop..."\<newline>''
     @ ''\<newline>''
     @ ''for ((i=1; i<=MAX_ITERATIONS; i++)); do\<newline>''
     @ ''    echo "--- Iteration $i ---"\<newline>''
     @ ''    \<newline>''
     @ ''    # Run Claude with the prompt\<newline>''
     @ ''    # We pipe stderr to stdout to catch everything\<newline>''
     @ ''    output=$(claude -p "$PROMPT_CONTENT" --print 2>&1)\<newline>''
     @ ''    \<newline>''
     @ ''    echo "$output"\<newline>''
     @ ''\<newline>''
     @ ''    if echo "$output" | grep -q "$COMPLETION_MARKER"; then\<newline>''
     @ ''        echo "'' @ [CHR 0xC3, CHR 0xA2, CHR 0xC5, CHR 0x93, CHR 0xE2, CHR 0x80, CHR 0xA6] @ '' Fixes applied and verified."\<newline>''
     @ ''        exit 0\<newline>''
     @ ''    fi\<newline>''
     @ ''    sleep 2\<newline>''
     @ ''done\<newline>''
     @ ''\<newline>''
     @ ''echo "'' @ [CHR 0xC3, CHR 0xA2, CHR 0xC5, CHR 0x92] @ '' Max iterations reached."\<newline>''
     @ ''exit 1''\<close>

definition CONTENT_RUN_GAUNTLET_SH :: string where
  \<open>CONTENT_RUN_GAUNTLET_SH =
     ''#!/bin/bash\<newline>''
     @ ''\<newline>''
     @ ''# Target directory (passed as arg or defaults to current dir)\<newline>''
     @ ''TARGET_DIR="${1:-.}"\<newline>''
     @ ''REPORT_FILE="COUNCIL_REPORT.md"\<newline>''
     @ ''PROMPT_DIR=".council/prompts"\<newline>''
     @ ''\<newline>''
     @ ''# Gather the code context (filtering out node_modules, git, etc.)\<newline>''
     @ ''# Note: For massive repos, replace this with a specific file list or use 'repomix'\<newline>''
     @ ''echo "'' @ [CHR 0xC3, CHR 0xB0, CHR 0xC5, CHR 0xB8, CHR 0xE2, CHR 0x80, CHR 0x9C, CHR 0xE2, CHR 0x80, CHR 0x93] @ '' Reading code context..."\<newline>''
     @ ''CODE_CONTEXT=$(find "$TARGET_DIR" -maxdepth 3 -name "*.js" -o -name "*.ts" -o -name "*.jsx" -o -name "*.tsx" -not -path "*/node_modules/*" | xargs cat)\<newline>''
     @ ''\<newline>''
     @ ''echo "# Council of Agents Report" > $REPORT_FILE\<newline>''
     @ ''echo "Target: $TARGET_DIR" >> $REPORT_FILE\<newline>''
     @ ''echo "Date: $(date)" >> $REPORT_FILE\<newline>''
     @ ''echo "------------------------------------------------" >> $REPORT_FILE\<newline>''
     @ ''\<newline>''
     @ ''run_agent() {\<newline>''
     @ ''    local name=$1\<newline>''
     @ ''    local prompt_path=$2\<newline>''
     @ ''    \<newline>''
     @ ''    echo "'' @ [CHR 0xC3, CHR 0xB0, CHR 0xC5, CHR 0xB8, CHR 0xC2, CHR 0xA4, CHR 0xE2, CHR 0x80, CHR 0x93] @ '' Agent [$name] is analyzing..."\<newline>''
     @ ''    \<newline>''
     @ ''    # Combine System Prompt + Code Context\<newline>''
     @ ''    local full_prompt="$(cat $prompt_path)\<newline>''
     @ ''    \<newline>''
     @ ''    <code_to_review>\<newline>''
     @ ''    $CODE_CONTEXT\<newline>''
     @ ''    </code_to_review>"\<newline>''
     @ ''    \<newline>''
     @ ''    local result=$(claude -p "$full_prompt" --print 2>&1)\<newline>''
     @ ''    \<newline>''
     @ ''    echo "## '' @ [CHR 0xC3, CHR 0xB0, CHR 0xC5, CHR 0xB8, CHR 0xE2, CHR 0x80, CHR 0xA2, CHR 0xC2, CHR 0xB5, CHR 0xC3, CHR 0xAF, CHR 0xC2, CHR 0xB8] @ '' Agent: $name" >> $REPORT_FILE\<newline>''
     @ ''    echo "$result" >> $REPORT_FILE\<newline>''
     @ ''    echo "------------------------------------------------" >> $REPORT_FILE\<newline>''
     @ ''}\<newline>''
     @ ''\<newline>''
     @ ''# Run in parallel\<newline>''
     @ ''run_agent "QA Engineer" "$PROMPT_DIR/01_test_qa.md" &\<newline>''
     @ ''run_agent "Architect" "$PROMPT_DIR/02_structure_architect.md" &\<newline>''
     @ ''run_agent "Librarian" "$PROMPT_DIR/03_naming_librarian.md" &\<newline>''
     @ ''run_agent "Domain Warden" "$PROMPT_DIR/04_domain_warden.md" &\<newline>''
     @ ''\<newline>''
     @ ''wait\<newline>''
     @ ''\<newline>''
     @ ''echo "'' @ [CHR 0xC3, CHR 0xB0, CHR 0xC5, CHR 0xB8, CHR 0xE2, CHR 0x80, CHR 0x9C, CHR 0xE2, CHR 0x80, CHR 0xB9] @ '' Council meeting adjourned. Report generated at $REPORT_FILE" ''\<close>

definition CONTENT_RUN_REVIEW_SH :: string where
  \<open>CONTENT_RUN_REVIEW_SH =
     ''#!/bin/bash\<newline>''
     @ ''\<newline>''
     @ ''# 1. Run the Gauntlet to generate the report\<newline>''
     @ ''chmod +x .council/scripts/run_gauntlet.sh\<newline>''
     @ ''./.council/scripts/run_gauntlet.sh "./src"\<newline>''
     @ ''\<newline>''
     @ ''# 2. Ask user if they want to auto-fix\<newline>''
     @ ''echo "Read the report at COUNCIL_REPORT.md"\<newline>''
     @ ''read -p "Do you want the 'Ralph Wiggum' loop to attempt to fix these issues? (y/n) " -n 1 -r\<newline>''
     @ ''echo\<newline>''
     @ ''if [[ ! $REPLY =~ ^[Yy]$ ]]; then\<newline>''
     @ ''    exit 1\<newline>''
     @ ''fi\<newline>''
     @ ''\<newline>''
     @ ''# 3. Construct the Fixer Prompt\<newline>''
     @ ''REPORT_CONTENT=$(cat COUNCIL_REPORT.md)\<newline>''
     @ ''FIXER_PROMPT="I have a code review report in COUNCIL_REPORT.md:\<newline>''
     @ ''\<newline>''
     @ ''<report>\<newline>''
     @ ''$REPORT_CONTENT\<newline>''
     @ ''</report>\<newline>''
     @ ''\<newline>''
     @ ''Your Goal: Fix the code based on these agents' findings.\<newline>''
     @ ''Rules:\<newline>''
     @ ''1. Address the 'Domain Warden' issues first (they are hardest).\<newline>''
     @ ''2. Rename variables as requested by the 'Librarian'.\<newline>''
     @ ''3. Refactor structure as requested by the 'Architect'.\<newline>''
     @ ''4. Finally, update/add tests as requested by the 'QA Engineer'.\<newline>''
     @ ''5. After every file change, run the tests (npm test).\<newline>''
     @ ''6. If tests fail, fix them immediately.\<newline>''
     @ ''\<newline>''
     @ ''When ALL items are addressed and tests pass, output exactly: <promise>COMPLETE</promise>."\<newline>''
     @ ''\<newline>''
     @ ''# 4. Run the Loop\<newline>''
     @ ''chmod +x .council/scripts/ralph.sh\<newline>''
     @ ''./.council/scripts/ralph.sh "$FIXER_PROMPT" ''\<close>

definition files :: "(string \<times> string) list" where
  "files =
     [(''.council/prompts/01_test_qa.md'', CONTENT_01_TEST_QA),
      (''.council/prompts/02_structure_architect.md'', CONTENT_02_STRUCTURE_ARCHITECT),
      (''.council/prompts/03_naming_librarian.md'', CONTENT_03_NAMING_LIBRARIAN),
      (''.council/prompts/04_domain_warden.md'', CONTENT_04_DOMAIN_WARDEN),
      (''.council/scripts/ralph.sh'', CONTENT_RALPH_SH),
      (''.council/scripts/run_gauntlet.sh'', CONTENT_RUN_GAUNTLET_SH),
      (''run_review.sh'', CONTENT_RUN_REVIEW_SH)]"

text \<open>
  Python's \<^verbatim>\<open>str.strip()\<close>: white space is removed at both ends. On the bytes of a UTF-8 text
  the white space of \<^verbatim>\<open>str.isspace\<close> below U+0080 is the characters 9 to 13 and 28 to 32; no
  value of \<^verbatim>\<open>files\<close> has one of the other white-space code points of Python.
\<close>

definition py_isspace :: "char \<Rightarrow> bool" where
  "py_isspace c = ((9 \<le> (of_char c :: nat) \<and> (of_char c :: nat) \<le> 13)
                   \<or> (28 \<le> (of_char c :: nat) \<and> (of_char c :: nat) \<le> 32))"

definition strip :: "string \<Rightarrow> string" where
  "strip s = rev (dropWhile py_isspace (rev (dropWhile py_isspace s)))"

definition endswith :: "string \<Rightarrow> string \<Rightarrow> bool" where
  "endswith s suf = suffix suf s"

text \<open>
  \<^verbatim>\<open>posixpath.split\<close> and \<^verbatim>\<open>posixpath.dirname\<close>: the path is cut behind its last slash; the
  head loses its trailing slashes unless it consists of slashes only.
\<close>

definition cut_head :: "string \<Rightarrow> string" where
  "cut_head p = rev (dropWhile (\<lambda>c. c \<noteq> CHR ''/'') (rev p))"

definition cut_tail :: "string \<Rightarrow> string" where
  "cut_tail p = rev (takeWhile (\<lambda>c. c \<noteq> CHR ''/'') (rev p))"

definition trim_head :: "string \<Rightarrow> string" where
  "trim_head head =
     (if head \<noteq> [] \<and> \<not> list_all (\<lambda>c. c = CHR ''/'') head
      then rev (dropWhile (\<lambda>c. c = CHR ''/'') (rev head)) else head)"

definition path_split :: "string \<Rightarrow> string \<times> string" where
  "path_split p = (trim_head (cut_head p), cut_tail p)"

definition dirname :: "string \<Rightarrow> string" where
  "dirname p = trim_head (cut_head p)"

text \<open>
  The file system, as far as the function touches it: a map from relative paths in normal
  form (no empty, \<^verbatim>\<open>.\<close> or \<^verbatim>\<open>..\<close> component) to directories and files. A file has its data
  and its permission bits; the data is a text or, for an archive, the list of its members.
  The text of a file is the text that was written to it, as reading the file in the
  encoding of the writer gives it back. Errors are values: an operation that raises returns
  \<open>Inl\<close> with the exception and the state at that moment.
\<close>

datatype py_error = FileExistsError | FileNotFoundError | NotADirectoryError | IsADirectoryError
  | PermissionError | UnicodeEncodeError | OSError

datatype file_data = Text string | Zip "(string \<times> file_data) list"

datatype node = Dir | File file_data nat

type_synonym filesystem = "string \<Rightarrow> node option"

text \<open>
  What the map does not decide lies with the system the function runs on: the rights of the
  user on files and directories, the encoding of the locale and of standard output, the
  space on the disk. For every call that reaches the system, \<open>refused env call fs\<close> is the
  exception with which the call is refused in the state \<open>fs\<close>, if it is: a \<^verbatim>\<open>PermissionError\<close>
  for \<^verbatim>\<open>open(path, 'w')\<close> on a file the user may not write, a \<^verbatim>\<open>UnicodeEncodeError\<close> for the
  \<^verbatim>\<open>write\<close> of a text that the encoding of the locale cannot encode or for the \<^verbatim>\<open>print\<close> of such
  a text, and so on. \<open>new_mode\<close> is what the umask leaves of \<^verbatim>\<open>0o666\<close>.
\<close>

datatype os_call =
    Mkdir string
  | OpenWrite string
  | WriteText string string
  | Chmod string
  | ZipAdd string
  | ZipClose
  | Print string

record os_env =
  new_mode :: nat
  refused :: "os_call \<Rightarrow> filesystem \<Rightarrow> py_error option"

text \<open>The components of a path, and the paths in normal form.\<close>

fun path_components :: "string \<Rightarrow> string \<Rightarrow> string list" where
  "path_components cur [] = [cur]"
| "path_components cur (c # cs) =
     (if c = CHR ''/'' then cur # path_components [] cs else path_components (cur @ [c]) cs)"

definition normal_relative :: "string \<Rightarrow> bool" where
  \<open>normal_relative p =
     list_all (\<lambda>comp. comp \<noteq> [] \<and> comp \<noteq> ''.'' \<and> comp \<noteq> ''..'') (path_components [] p)\<close>

definition path_exists :: "filesystem \<Rightarrow> string \<Rightarrow> bool" where
  "path_exists fs p = (fs p \<noteq> None)"

definition isdir :: "filesystem \<Rightarrow> string \<Rightarrow> bool" where
  "isdir fs p = (fs p = Some Dir)"

text \<open>What stands in the way of creating or opening \<open>p\<close>: its directory is missing, or is a
  file. A path without a directory part lies in the current directory.\<close>

definition parent_error :: "filesystem \<Rightarrow> string \<Rightarrow> py_error option" where
  "parent_error fs p =
     (if dirname p = [] then None
      else (case fs (dirname p) of
              None \<Rightarrow> Some FileNotFoundError
            | Some Dir \<Rightarrow> None
            | Some (File d m) \<Rightarrow> Some NotADirectoryError))"

definition mkdir :: "os_env \<Rightarrow> filesystem \<Rightarrow> string \<Rightarrow> (py_error \<times> filesystem) + filesystem" where
  "mkdir env fs name =
     (case refused env (Mkdir name) fs of
        Some e \<Rightarrow> Inl (e, fs)
      | None \<Rightarrow>
          (case parent_error fs name of
             Some e \<Rightarrow> Inl (e, fs)
           | None \<Rightarrow> if fs name \<noteq> None then Inl (FileExistsError, fs) else Inr (fs(name \<mapsto> Dir))))"

text \<open>The last statement of \<^verbatim>\<open>os.makedirs\<close>: \<^verbatim>\<open>mkdir\<close>, whose error, whichever it is, is dropped
  when \<^verbatim>\<open>exist_ok\<close> is set and the name is a directory.\<close>

definition mkdir_exist_ok ::
  "os_env \<Rightarrow> filesystem \<Rightarrow> string \<Rightarrow> bool \<Rightarrow> (py_error \<times> filesystem) + filesystem" where
  "mkdir_exist_ok env fs name exist_ok =
     (case mkdir env fs name of
        Inl (e, fs1) \<Rightarrow> if \<not> exist_ok \<or> \<not> isdir fs1 name then Inl (e, fs1) else Inr fs1
      | Inr fs1 \<Rightarrow> Inr fs1)"

text \<open>The head and the tail \<^verbatim>\<open>os.makedirs\<close> works with: those of \<^verbatim>\<open>path.split(name)\<close>, or of
  \<^verbatim>\<open>path.split(head)\<close> when the tail is empty.\<close>

definition makedirs_split :: "string \<Rightarrow> string \<times> string" where
  "makedirs_split name =
     (if snd (path_split name) = [] then path_split (fst (path_split name)) else path_split name)"

text \<open>\<^verbatim>\<open>os.makedirs(name, exist_ok=exist_ok)\<close>: the missing head is created first, a
  \<^verbatim>\<open>FileExistsError\<close> of that call is passed over, and nothing more is done when the tail is
  a dot.\<close>

function makedirs ::
  "os_env \<Rightarrow> filesystem \<Rightarrow> string \<Rightarrow> bool \<Rightarrow> (py_error \<times> filesystem) + filesystem" where
  "makedirs env fs name exist_ok =
     (if fst (makedirs_split name) \<noteq> [] \<and> snd (makedirs_split name) \<noteq> []
         \<and> \<not> path_exists fs (fst (makedirs_split name))
      then
        (case makedirs env fs (fst (makedirs_split name)) exist_ok of
           Inl (e, fs1) \<Rightarrow>
             if e = FileExistsError
             then (if snd (makedirs_split name) = ''.'' then Inr fs1
                   else mkdir_exist_ok env fs1 name exist_ok)
             else Inl (e, fs1)
         | Inr fs1 \<Rightarrow>
             if snd (makedirs_split name) = ''.'' then Inr fs1
             else mkdir_exist_ok env fs1 name exist_ok)
      else mkdir_exist_ok env fs name exist_ok)"
  by pat_completeness auto
termination
proof (relation "measure (\<lambda>(env, fs, name, exist_ok). length name)")
  show "wf (measure (\<lambda>(env, fs, name, exist_ok). length name))" by simp
next
  fix env :: os_env and fs :: filesystem and name :: string and exist_ok :: bool
  assume a: "fst (makedirs_split name) \<noteq> [] \<and> snd (makedirs_split name) \<noteq> []
             \<and> \<not> path_exists fs (fst (makedirs_split name))"
  have cut: "length (cut_head p) + length (cut_tail p) = length p" for p
  proof -
    have "length (dropWhile (\<lambda>c. c \<noteq> CHR ''/'') (rev p))
          + length (takeWhile (\<lambda>c. c \<noteq> CHR ''/'') (rev p)) = length (rev p)"
      using takeWhile_dropWhile_id[of "\<lambda>c. c \<noteq> CHR ''/''" "rev p"]
      by (metis add.commute length_append)
    then show ?thesis by (simp add: cut_head_def cut_tail_def)
  qed
  have trim: "length (trim_head h) \<le> length h" for h
    by (simp add: trim_head_def length_dropWhile_le order_trans[OF length_dropWhile_le])
  have sp: "length (fst (path_split p)) < length p" if "snd (path_split p) \<noteq> []" for p
  proof -
    from that have "cut_tail p \<noteq> []" by (simp add: path_split_def)
    then have "0 < length (cut_tail p)" by (rule iffD2[OF length_greater_0_conv])
    with cut[of p] trim[of "cut_head p"] have "length (trim_head (cut_head p)) < length p"
      by linarith
    then show ?thesis by (simp add: path_split_def)
  qed
  have le: "length (fst (path_split p)) \<le> length p" for p
    using cut[of p] trim[of "cut_head p"] by (simp add: path_split_def)
  have "length (fst (makedirs_split name)) < length name"
  proof (cases "snd (path_split name) = []")
    case True
    with a have "snd (path_split (fst (path_split name))) \<noteq> []"
      by (simp add: makedirs_split_def)
    from sp[OF this] le[of name] True show ?thesis by (simp add: makedirs_split_def)
  next
    case False
    from sp[OF False] False show ?thesis by (simp add: makedirs_split_def)
  qed
  then show "((env, fs, fst (makedirs_split name), exist_ok), env, fs, name, exist_ok)
             \<in> measure (\<lambda>(env, fs, name, exist_ok). length name)"
    by simp
qed

declare makedirs.simps [simp del]

text \<open>\<^verbatim>\<open>open(path, 'w')\<close>, or the opening of the archive by \<^verbatim>\<open>ZipFile(path, 'w')\<close>: the file is
  created with the permission bits \<open>new_mode\<close> or, when it exists, keeps its bits; its data is
  cut down to \<open>blank\<close>, the file without content.\<close>

definition open_w ::
  "os_env \<Rightarrow> filesystem \<Rightarrow> string \<Rightarrow> file_data \<Rightarrow> (py_error \<times> filesystem) + filesystem" where
  "open_w env fs path blank =
     (case refused env (OpenWrite path) fs of
        Some e \<Rightarrow> Inl (e, fs)
      | None \<Rightarrow>
          (case parent_error fs path of
             Some e \<Rightarrow> Inl (e, fs)
           | None \<Rightarrow>
               (case fs path of
                  None \<Rightarrow> Inr (fs(path \<mapsto> File blank (new_mode env)))
                | Some Dir \<Rightarrow> Inl (IsADirectoryError, fs)
                | Some (File d m) \<Rightarrow> Inr (fs(path \<mapsto> File blank m)))))"

text \<open>\<^verbatim>\<open>f.write(text)\<close> on the file just opened at \<open>path\<close>, and the end of its \<^verbatim>\<open>with\<close> block. A
  text that cannot be encoded is refused as a whole, and the file stays empty.\<close>

definition write_text ::
  "os_env \<Rightarrow> filesystem \<Rightarrow> string \<Rightarrow> string \<Rightarrow> (py_error \<times> filesystem) + filesystem" where
  "write_text env fs path content =
     (case refused env (WriteText path content) fs of
        Some e \<Rightarrow> Inl (e, fs)
      | None \<Rightarrow>
          (case fs path of
             Some (File d m) \<Rightarrow> Inr (fs(path \<mapsto> File (Text content) m))
           | Some Dir \<Rightarrow> Inl (IsADirectoryError, fs)
           | None \<Rightarrow> Inl (FileNotFoundError, fs)))"

definition chmod ::
  "os_env \<Rightarrow> filesystem \<Rightarrow> string \<Rightarrow> nat \<Rightarrow> (py_error \<times> filesystem) + filesystem" where
  "chmod env fs path mode =
     (case refused env (Chmod path) fs of
        Some e \<Rightarrow> Inl (e, fs)
      | None \<Rightarrow>
          (case fs path of
             None \<Rightarrow> Inl (FileNotFoundError, fs)
           | Some Dir \<Rightarrow> Inr fs
           | Some (File d m) \<Rightarrow> Inr (fs(path \<mapsto> File d mode))))"

text \<open>\<^verbatim>\<open>zipf.write(path)\<close> reads the path from disk and adds it as a member. For a relative
  path in normal form the name of the member is the path; a directory becomes a member
  whose name ends with a slash.\<close>

definition zip_member :: "os_env \<Rightarrow> filesystem \<Rightarrow> string \<Rightarrow> py_error + (string \<times> file_data)" where
  "zip_member env fs path =
     (case refused env (ZipAdd path) fs of
        Some e \<Rightarrow> Inl e
      | None \<Rightarrow>
          (case fs path of
             None \<Rightarrow> Inl FileNotFoundError
           | Some Dir \<Rightarrow> Inr (path @ ''/'', Text [])
           | Some (File d m) \<Rightarrow> Inr (path, d)))"

definition ZIP_NAME :: string where
  \<open>ZIP_NAME = ''council_of_agents.zip''\<close>

definition MSG_SUCCESS :: string where
  \<open>MSG_SUCCESS =
     ''\<newline>'' @ [CHR 0xC3, CHR 0xA2, CHR 0xC5, CHR 0x93, CHR 0xE2, CHR 0x80, CHR 0xA6]
     @ '' Success! Created 'council_of_agents.zip' and the '.council' directory.''\<close>

text \<open>The state of the function: the file system, the members added to the open archive
  object, and what was printed.\<close>

record py_state =
  py_fs :: filesystem
  py_zipf :: "(string \<times> file_data) list"
  py_stdout :: "string list"

definition py_print :: "os_env \<Rightarrow> string \<Rightarrow> py_state \<Rightarrow> (py_error \<times> py_state) + py_state" where
  "py_print env s st =
     (case refused env (Print s) (py_fs st) of
        Some e \<Rightarrow> Inl (e, st)
      | None \<Rightarrow> Inr (st\<lparr>py_stdout := py_stdout st @ [s @ [NL]]\<rparr>))"

text \<open>The body of the \<^verbatim>\<open>for\<close> loop for one item of \<^verbatim>\<open>files\<close>.\<close>

definition add_file :: "os_env \<Rightarrow> string \<times> string \<Rightarrow> py_state \<Rightarrow> (py_error \<times> py_state) + py_state" where
  \<open>add_file env item st =
     (let path = fst item; content = snd item; dir_name = dirname path in
      case (if dir_name \<noteq> [] then makedirs env (py_fs st) dir_name True else Inr (py_fs st)) of
        Inl (e, fs1) \<Rightarrow> Inl (e, st\<lparr>py_fs := fs1\<rparr>)
      | Inr fs1 \<Rightarrow>
          (case open_w env fs1 path (Text []) of
             Inl (e, fs2) \<Rightarrow> Inl (e, st\<lparr>py_fs := fs2\<rparr>)
           | Inr fs2 \<Rightarrow>
               (case write_text env fs2 path (strip content) of
                  Inl (e, fs3) \<Rightarrow> Inl (e, st\<lparr>py_fs := fs3\<rparr>)
                | Inr fs3 \<Rightarrow>
                    (case (if endswith path ''.sh'' then chmod env fs3 path (7 * 64 + 5 * 8 + 5)
                           else Inr fs3) of
                       Inl (e, fs4) \<Rightarrow> Inl (e, st\<lparr>py_fs := fs4\<rparr>)
                     | Inr fs4 \<Rightarrow>
                         (case zip_member env fs4 path of
                            Inl e \<Rightarrow> Inl (e, st\<lparr>py_fs := fs4\<rparr>)
                          | Inr member \<Rightarrow>
                              py_print env (''  + Added '' @ path)
                                (st\<lparr>py_fs := fs4, py_zipf := py_zipf st @ [member]\<rparr>))))))\<close>

fun add_files :: "os_env \<Rightarrow> (string \<times> string) list \<Rightarrow> py_state \<Rightarrow> (py_error \<times> py_state) + py_state" where
  "add_files env [] st = Inr st"
| "add_files env (item # rest) st =
     (case add_file env item st of
        Inl err \<Rightarrow> Inl err
      | Inr st1 \<Rightarrow> add_files env rest st1)"

text \<open>The end of the \<^verbatim>\<open>with zipfile.ZipFile(...)\<close> block, reached with or without an
  exception: the archive on disk gets the members added so far.\<close>

definition zip_close :: "os_env \<Rightarrow> py_state \<Rightarrow> (py_error \<times> py_state) + py_state" where
  "zip_close env st =
     (case refused env ZipClose (py_fs st) of
        Some e \<Rightarrow> Inl (e, st)
      | None \<Rightarrow>
          Inr (st\<lparr>py_fs := (py_fs st)(ZIP_NAME \<mapsto>
                 File (Zip (py_zipf st))
                   (case py_fs st ZIP_NAME of Some (File d m) \<Rightarrow> m | Some Dir \<Rightarrow> new_mode env
                    | None \<Rightarrow> new_mode env))\<rparr>))"

text \<open>The function. An exception raised inside the \<^verbatim>\<open>with\<close> block is raised again after the
  archive has been closed, unless closing raises one of its own.\<close>

definition create_council_zip :: "os_env \<Rightarrow> filesystem \<Rightarrow> (py_error \<times> py_state) + py_state" where
  \<open>create_council_zip env fs0 =
     (case py_print env ''Creating Council of Agents...''
             \<lparr>py_fs = fs0, py_zipf = [], py_stdout = []\<rparr> of
        Inl err \<Rightarrow> Inl err
      | Inr st0 \<Rightarrow>
          (case open_w env fs0 ZIP_NAME (Zip []) of
             Inl (e, fs1) \<Rightarrow> Inl (e, st0)
           | Inr fs1 \<Rightarrow>
               (case add_files env files (st0\<lparr>py_fs := fs1\<rparr>) of
                  Inl (e, st) \<Rightarrow>
                    (case zip_close env st of Inl err \<Rightarrow> Inl err | Inr st1 \<Rightarrow> Inl (e, st1))
                | Inr st \<Rightarrow>
                    (case zip_close env st of
                       Inl err \<Rightarrow> Inl err
                     | Inr st1 \<Rightarrow> py_print env MSG_SUCCESS st1))))\<close>

text \<open>The directories the paths of \<^verbatim>\<open>files\<close> lie in.\<close>

definition council_dirs :: "string list" where
  \<open>council_dirs = [''.council'', ''.council/prompts'', ''.council/scripts'']\<close>

text \<open>A directory path is free for \<^verbatim>\<open>makedirs\<close> when it is missing or is a directory.\<close>

definition dir_ok :: "filesystem \<Rightarrow> string \<Rightarrow> bool" where
  "dir_ok fs d = (fs d = None \<or> fs d = Some Dir)"

text \<open>Systems for examples. The first refuses nothing, and its umask is 022. The second
  has a locale whose encoding is ASCII: it refuses to write or print a text with a byte
  above 127. On the third the user may not write the file \<^verbatim>\<open>run_review.sh\<close>.\<close>

definition willing_env :: os_env where
  "willing_env = \<lparr>new_mode = 420, refused = (\<lambda>call fs. None)\<rparr>"

definition ascii_env :: os_env where
  "ascii_env =
     \<lparr>new_mode = 420,
      refused = (\<lambda>call fs.
        case call of
          WriteText path content \<Rightarrow>
            if list_all (\<lambda>c. (of_char c :: nat) < 128) content then None else Some UnicodeEncodeError
        | Print s \<Rightarrow>
            if list_all (\<lambda>c. (of_char c :: nat) < 128) s then None else Some UnicodeEncodeError
        | _ \<Rightarrow> None)\<rparr>"

definition read_only_env :: os_env where
  \<open>read_only_env =
     \<lparr>new_mode = 420,
      refused = (\<lambda>call fs.
        if call = OpenWrite ''run_review.sh'' \<and> fs ''run_review.sh'' \<noteq> None
        then Some PermissionError else None)\<rparr>\<close>

text \<open>The state an exception or a return leaves.\<close>

definition state_of :: "(py_error \<times> 'a) + 'a \<Rightarrow> 'a" where
  "state_of r = (case r of Inl (e, s) \<Rightarrow> s | Inr s \<Rightarrow> s)"

text \<open>What \<^verbatim>\<open>os.makedirs\<close> may change: paths that were missing may have become directories.\<close>

definition only_new_dirs :: "filesystem \<Rightarrow> filesystem \<Rightarrow> bool" where
  "only_new_dirs fs fs' = (\<forall>p. fs' p = fs p \<or> (fs p = None \<and> fs' p = Some Dir))"

section \<open>Properties of the shell primitives\<close>

lemma sublist_across_sep:
  assumes "sep \<notin> set pat" "pat \<noteq> []"
  shows "sublist pat (ys @ sep # zs) \<longleftrightarrow> sublist pat ys \<or> sublist pat zs"
proof
  assume "sublist pat (ys @ sep # zs)"
  then obtain ps ss where e: "ys @ sep # zs = ps @ pat @ ss" by (auto simp: sublist_def)
  show "sublist pat ys \<or> sublist pat zs"
  proof (cases "length ps + length pat \<le> length ys")
    case True
    from e have "take (length ps + length pat) (ys @ sep # zs) = ps @ pat" by simp
    with True have "take (length ps + length pat) ys = ps @ pat" by simp
    then have "ys = ps @ pat @ drop (length ps + length pat) ys"
      by (metis append_take_drop_id append.assoc)
    then show ?thesis unfolding sublist_def by blast
  next
    case False
    show ?thesis
    proof (cases "length ys < length ps")
      case True
      from e have "drop (Suc (length ys)) (ys @ sep # zs) = drop (Suc (length ys)) (ps @ pat @ ss)" by simp
      with True have "zs = drop (Suc (length ys)) ps @ pat @ ss" by simp
      then show ?thesis unfolding sublist_def by blast
    next
      case F2: False
      with False have a: "length ps \<le> length ys" "length ys < length ps + length pat" by auto
      from e have e': "(ys @ sep # zs) ! length ys = (ps @ pat @ ss) ! length ys" by simp
      from a have b: "length ys - length ps < length pat" by arith
      from a b e' have "sep = pat ! (length ys - length ps)"
        by (simp add: nth_append)
      with b have "sep \<in> set pat" by (metis nth_mem)
      with assms show ?thesis by simp
    qed
  qed
next
  assume "sublist pat ys \<or> sublist pat zs"
  then show "sublist pat (ys @ sep # zs)"
  proof
    assume "sublist pat ys"
    then obtain ps ss where "ys = ps @ pat @ ss" by (auto simp: sublist_def)
    then have "ys @ sep # zs = ps @ pat @ (ss @ sep # zs)" by simp
    then show ?thesis unfolding sublist_def by blast
  next
    assume "sublist pat zs"
    then obtain ps ss where "zs = ps @ pat @ ss" by (auto simp: sublist_def)
    then have "ys @ sep # zs = (ys @ sep # ps) @ pat @ ss" by simp
    then show ?thesis unfolding sublist_def by blast
  qed
qed

lemma split_lines_sublist:
  assumes "NL \<notin> set pat" "pat \<noteq> []"
  shows "list_ex (sublist pat) (split_lines cur s) \<longleftrightarrow> sublist pat (cur @ s)"
proof (induction s arbitrary: cur)
  case Nil
  from assms show ?case by (cases pat) auto
next
  case (Cons c cs)
  show ?case
  proof (cases "c = NL")
    case True
    then show ?thesis using Cons[of "[]"] sublist_across_sep[OF assms, of cur cs] by simp
  next
    case False
    then show ?thesis using Cons[of "cur @ [c]"] by simp
  qed
qed

lemma grep_q_literal:
  "NL \<notin> set pat \<Longrightarrow> pat \<noteq> [] \<Longrightarrow> grep_q pat input = sublist pat input"
  using split_lines_sublist[of pat "[]" input] by (simp add: grep_q_def text_lines_def)

lemma marker_facts:
  "NL \<notin> set COMPLETION_MARKER" "COMPLETION_MARKER \<noteq> []" "CHR ''<'' \<in> set COMPLETION_MARKER"
  "\<not> list_ex bre_special COMPLETION_MARKER" "NUL \<notin> set COMPLETION_MARKER"
  by (simp_all add: COMPLETION_MARKER_def NL_def NUL_def bre_special_def)

lemma sublist_snoc_sep:
  assumes "sep \<notin> set pat" "pat \<noteq> []"
  shows "sublist pat (ys @ [sep]) \<longleftrightarrow> sublist pat ys"
  using sublist_across_sep[OF assms, of ys "[]"] assms by (cases pat) auto

lemma sublist_append_seps:
  assumes "sep \<notin> set pat" "pat \<noteq> []"
  shows "sublist pat (ys @ replicate n sep) \<longleftrightarrow> sublist pat ys"
proof (induction n)
  case 0 show ?case by simp
next
  case (Suc n)
  have "ys @ replicate (Suc n) sep = (ys @ replicate n sep) @ [sep]"
    by (simp add: replicate_append_same)
  then show ?case using Suc sublist_snoc_sep[OF assms, of "ys @ replicate n sep"] by simp
qed

lemma takeWhile_eq_replicate:
  "takeWhile (\<lambda>c. c = a) xs = replicate (length (takeWhile (\<lambda>c. c = a) xs)) a"
  by (induction xs) auto

lemma cmd_subst_decomp: "\<exists>n. filter (\<lambda>c. c \<noteq> NUL) raw = cmd_subst raw @ replicate n NL"
proof -
  let ?t = "filter (\<lambda>c. c \<noteq> NUL) raw"
  define n where "n = length (takeWhile (\<lambda>c. c = NL) (rev ?t))"
  have "rev ?t = takeWhile (\<lambda>c. c = NL) (rev ?t) @ dropWhile (\<lambda>c. c = NL) (rev ?t)" by simp
  then have "rev ?t = replicate n NL @ dropWhile (\<lambda>c. c = NL) (rev ?t)"
    using takeWhile_eq_replicate[of NL "rev ?t"] unfolding n_def by simp
  then have "rev (rev ?t) = rev (replicate n NL @ dropWhile (\<lambda>c. c = NL) (rev ?t))" by simp
  then have "?t = cmd_subst raw @ replicate n NL"
    unfolding cmd_subst_def by (simp only: rev_rev_ident rev_append rev_replicate)
  then show ?thesis by blast
qed

lemma sublist_cmd_subst:
  assumes "NL \<notin> set pat" "pat \<noteq> []"
  shows "sublist pat (cmd_subst raw) \<longleftrightarrow> sublist pat (filter (\<lambda>c. c \<noteq> NUL) raw)"
  using cmd_subst_decomp[of raw] sublist_append_seps[OF assms] by metis

lemma sublist_filter:
  assumes "sublist pat raw" and "\<forall>c \<in> set pat. P c"
  shows "sublist pat (filter P raw)"
proof -
  from assms(1) obtain ps ss where "raw = ps @ pat @ ss" by (auto simp: sublist_def)
  then have "filter P raw = filter P ps @ filter P pat @ filter P ss" by simp
  moreover from assms(2) have "filter P pat = pat" by (simp add: filter_id_conv)
  ultimately show ?thesis unfolding sublist_def by metis
qed

lemma cmd_subst_keeps_marker:
  assumes "NL \<notin> set pat" "pat \<noteq> []" "NUL \<notin> set pat" "sublist pat raw"
  shows "sublist pat (cmd_subst raw)"
proof -
  from assms(3) have "\<forall>c \<in> set pat. c \<noteq> NUL" by auto
  from sublist_filter[OF assms(4) this] show ?thesis
    by (simp only: sublist_cmd_subst[OF assms(1,2)])
qed

lemma cmd_subst_plain:
  assumes "NUL \<notin> set raw"
  shows "sublist pat (filter (\<lambda>c. c \<noteq> NUL) raw) \<longleftrightarrow> sublist pat raw"
proof -
  from assms have "filter (\<lambda>c. c \<noteq> NUL) raw = raw" by (simp add: filter_id_conv) metis
  then show ?thesis by simp
qed

lemma echo_option_no_marker:
  assumes "is_echo_option a" shows "\<not> sublist COMPLETION_MARKER a"
proof
  assume "sublist COMPLETION_MARKER a"
  then have "set COMPLETION_MARKER \<subseteq> set a" by (rule set_mono_sublist)
  with marker_facts(3) have m: "CHR ''<'' \<in> set a" by blast
  from assms obtain fs where a: "a = CHR ''-'' # fs" and f: "list_all echo_flag fs"
    by (cases a) (simp_all add: is_echo_option_def)
  from m a have "CHR ''<'' \<in> set fs" by simp
  with f have "echo_flag (CHR ''<'')" by (simp add: list_all_iff)
  then show False by (simp add: echo_flag_def)
qed

lemma completion_test_iff:
  "completion_test output \<longleftrightarrow> sublist COMPLETION_MARKER output"
proof -
  note g = grep_q_literal[OF marker_facts(1,2)]
  note s = sublist_snoc_sep[OF marker_facts(1,2)]
  show ?thesis
  proof (cases "is_echo_option output")
    case True
    then have n: "\<not> sublist COMPLETION_MARKER output" by (rule echo_option_no_marker)
    have e: "\<not> sublist COMPLETION_MARKER []" using marker_facts(2) by simp
    have "\<not> sublist COMPLETION_MARKER [NL]" using s[of "[]"] e by simp
    with e have "\<not> sublist COMPLETION_MARKER (bash_echo output)"
      using True by (simp add: bash_echo_def)
    with n show ?thesis by (simp only: completion_test_def g)
  next
    case False
    then have "bash_echo output = output @ [NL]" by (simp add: bash_echo_def)
    then show ?thesis by (simp only: completion_test_def g s)
  qed
qed

section \<open>Properties of the fixer loop\<close>

lemma ralph_iteration_found:
  "fst (ralph_iteration claude p i sh)
     = sublist COMPLETION_MARKER (cmd_subst (combined_output (fst (claude p (world sh)))))"
  by (simp add: ralph_iteration_def Let_def echo_out_def completion_test_iff)

lemma ralph_iteration_state:
  "world (snd (ralph_iteration claude p i sh)) = snd (claude p (world sh))"
  "invocations (snd (ralph_iteration claude p i sh)) = Suc (invocations sh)"
  "sleeps (snd (ralph_iteration claude p i sh)) = sleeps sh"
  by (simp_all add: ralph_iteration_def Let_def echo_out_def)

lemma ralph_loop_found:
  assumes "i \<le> m" "fst (ralph_iteration claude p i sh)"
  shows "ralph_loop claude m p i sh = (0, echo_out MSG_FIXED (snd (ralph_iteration claude p i sh)))"
  using assms by (subst ralph_loop.simps) (simp add: case_prod_beta)

lemma ralph_loop_next:
  assumes "i \<le> m" "\<not> fst (ralph_iteration claude p i sh)"
  shows "ralph_loop claude m p i sh
         = ralph_loop claude m p (Suc i)
             ((snd (ralph_iteration claude p i sh))
                \<lparr>sleeps := Suc (sleeps (snd (ralph_iteration claude p i sh)))\<rparr>)"
  using assms by (subst ralph_loop.simps) (simp add: case_prod_beta)

lemma ralph_loop_done:
  assumes "m < i"
  shows "ralph_loop claude m p i sh = (1, echo_out MSG_MAX_REACHED sh)"
  using assms by (subst ralph_loop.simps) simp

lemma world_after_step:
  assumes "1 \<le> i" "world sh = world_after claude p w (i - 1)"
  shows "snd (claude p (world sh)) = world_after claude p w i"
    and "cmd_subst (combined_output (fst (claude p (world sh)))) = captured_at claude p w i"
proof -
  from assms(1) obtain n where i: "i = Suc n" by (cases i) auto
  with assms(2) show "snd (claude p (world sh)) = world_after claude p w i" by simp
  from assms(2)
  show "cmd_subst (combined_output (fst (claude p (world sh)))) = captured_at claude p w i"
    by (simp add: captured_at_def output_at_def)
qed

lemma ralph_iteration_at:
  assumes "1 \<le> i" "world sh = world_after claude p w (i - 1)"
  shows "fst (ralph_iteration claude p i sh) = sublist COMPLETION_MARKER (captured_at claude p w i)"
    and "world (snd (ralph_iteration claude p i sh)) = world_after claude p w i"
  using world_after_step[OF assms]
  by (simp_all only: ralph_iteration_found ralph_iteration_state)

lemma ralph_loop_completes:
  assumes "1 \<le> i" "i \<le> k" "k \<le> m"
    and "world sh = world_after claude p w (i - 1)"
    and "sublist COMPLETION_MARKER (captured_at claude p w k)"
    and "\<forall>j. i \<le> j \<and> j < k \<longrightarrow> \<not> sublist COMPLETION_MARKER (captured_at claude p w j)"
  shows "fst (ralph_loop claude m p i sh) = 0
         \<and> invocations (snd (ralph_loop claude m p i sh)) = invocations sh + (Suc k - i)
         \<and> sleeps (snd (ralph_loop claude m p i sh)) = sleeps sh + (k - i)
         \<and> world (snd (ralph_loop claude m p i sh)) = world_after claude p w k"
  using assms
proof (induction "k - i" arbitrary: i sh)
  case 0
  then have ik: "i = k" by simp
  note at = ralph_iteration_at[OF "0.prems"(1) "0.prems"(4)]
  from "0.prems"(5) at(1) ik have f: "fst (ralph_iteration claude p i sh)"
    by simp
  from "0.prems"(3) ik have im: "i \<le> m" by simp
  show ?case
    unfolding ralph_loop_found[OF im f] using at(2) ik
    by (simp add: echo_out_def ralph_iteration_state(2,3))
next
  case (Suc d)
  then have ik: "i < k" by simp
  let ?sh = "(snd (ralph_iteration claude p i sh))
                \<lparr>sleeps := Suc (sleeps (snd (ralph_iteration claude p i sh)))\<rparr>"
  note at = ralph_iteration_at[OF Suc.prems(1) Suc.prems(4)]
  from Suc.prems(6) ik have nf: "\<not> fst (ralph_iteration claude p i sh)"
    by (simp only: at(1)) simp
  from Suc.prems ik have im: "i \<le> m" by simp
  have w: "world ?sh = world_after claude p w (Suc i - 1)"
    by (simp add: at(2))
  have "fst (ralph_loop claude m p (Suc i) ?sh) = 0
         \<and> invocations (snd (ralph_loop claude m p (Suc i) ?sh)) = invocations ?sh + (Suc k - Suc i)
         \<and> sleeps (snd (ralph_loop claude m p (Suc i) ?sh)) = sleeps ?sh + (k - Suc i)
         \<and> world (snd (ralph_loop claude m p (Suc i) ?sh)) = world_after claude p w k"
  proof (rule Suc.hyps(1))
    show "d = k - Suc i" using Suc.hyps(2) by simp
    show "1 \<le> Suc i" by simp
    show "Suc i \<le> k" using ik by simp
    show "k \<le> m" by fact
    show "world ?sh = world_after claude p w (Suc i - 1)" by (rule w)
    show "sublist COMPLETION_MARKER (captured_at claude p w k)" by fact
    show "\<forall>j. Suc i \<le> j \<and> j < k \<longrightarrow> \<not> sublist COMPLETION_MARKER (captured_at claude p w j)"
      using Suc.prems(6) by auto
  qed
  then show ?case
    unfolding ralph_loop_next[OF im nf] using ik by (auto simp add: ralph_iteration_state(2,3))
qed

lemma ralph_loop_exhausts:
  assumes "1 \<le> i" "i \<le> Suc m"
    and "world sh = world_after claude p w (i - 1)"
    and "\<forall>j. i \<le> j \<and> j \<le> m \<longrightarrow> \<not> sublist COMPLETION_MARKER (captured_at claude p w j)"
  shows "fst (ralph_loop claude m p i sh) = 1
         \<and> invocations (snd (ralph_loop claude m p i sh)) = invocations sh + (Suc m - i)
         \<and> sleeps (snd (ralph_loop claude m p i sh)) = sleeps sh + (Suc m - i)
         \<and> world (snd (ralph_loop claude m p i sh)) = world_after claude p w m"
  using assms
proof (induction "Suc m - i" arbitrary: i sh)
  case 0
  then have im: "i = Suc m" by simp
  then have "m < i" by simp
  then show ?case unfolding ralph_loop_done[OF \<open>m < i\<close>] using "0.prems"(3) im
    by (simp add: echo_out_def)
next
  case (Suc d)
  then have im: "i \<le> m" by simp
  let ?sh = "(snd (ralph_iteration claude p i sh))
                \<lparr>sleeps := Suc (sleeps (snd (ralph_iteration claude p i sh)))\<rparr>"
  note at = ralph_iteration_at[OF Suc.prems(1) Suc.prems(3)]
  from Suc.prems(4) im have nf: "\<not> fst (ralph_iteration claude p i sh)"
    by (simp only: at(1)) simp
  have w: "world ?sh = world_after claude p w (Suc i - 1)"
    by (simp add: at(2))
  have "fst (ralph_loop claude m p (Suc i) ?sh) = 1
         \<and> invocations (snd (ralph_loop claude m p (Suc i) ?sh)) = invocations ?sh + (Suc m - Suc i)
         \<and> sleeps (snd (ralph_loop claude m p (Suc i) ?sh)) = sleeps ?sh + (Suc m - Suc i)
         \<and> world (snd (ralph_loop claude m p (Suc i) ?sh)) = world_after claude p w m"
  proof (rule Suc.hyps(1))
    show "d = Suc m - Suc i" using Suc.hyps(2) by simp
    show "1 \<le> Suc i" by simp
    show "Suc i \<le> Suc m" using im by simp
    show "world ?sh = world_after claude p w (Suc i - 1)" by (rule w)
    show "\<forall>j. Suc i \<le> j \<and> j \<le> m \<longrightarrow> \<not> sublist COMPLETION_MARKER (captured_at claude p w j)"
      using Suc.prems(4) by auto
  qed
  then show ?case
    unfolding ralph_loop_next[OF im nf] using im by (auto simp add: ralph_iteration_state(2,3))
qed

lemma ralph_loop_bound:
  "invocations (snd (ralph_loop claude m p i sh)) \<le> invocations sh + (Suc m - i)"
proof (induction "Suc m - i" arbitrary: i sh)
  case 0
  then have "m < i" by simp
  show ?case unfolding ralph_loop_done[OF \<open>m < i\<close>] by (simp add: echo_out_def)
next
  case (Suc d)
  then have im: "i \<le> m" by simp
  show ?case
  proof (cases "fst (ralph_iteration claude p i sh)")
    case True
    show ?thesis unfolding ralph_loop_found[OF im True] using im
      by (simp add: echo_out_def ralph_iteration_state(2))
  next
    case False
    have d: "d = Suc m - Suc i" using Suc.hyps(2) by simp
    let ?sh = "(snd (ralph_iteration claude p i sh))
                \<lparr>sleeps := Suc (sleeps (snd (ralph_iteration claude p i sh)))\<rparr>"
    from Suc.hyps(1)[OF d, of ?sh] show ?thesis unfolding ralph_loop_next[OF im False] using im
      by (simp add: ralph_iteration_state(2))
  qed
qed

lemma world_after_stub: "world_after (stub_engine k) p w n = w + n"
  by (induction n) (simp_all add: stub_engine_def)

lemma output_at_stub:
  "1 \<le> j \<Longrightarrow> output_at (stub_engine k) p 0 j
     = (if j = k then ''All done.\<newline><promise>COMPLETE</promise>\<newline>''
        else ''Still working on the findings.\<newline>'')"
  by (cases j) (simp_all add: output_at_def world_after_stub stub_engine_def)

lemma stub_captured:
  "cmd_subst ''All done.\<newline><promise>COMPLETE</promise>\<newline>''
     = ''All done.\<newline><promise>COMPLETE</promise>''"
  "cmd_subst ''Still working on the findings.\<newline>'' = ''Still working on the findings.''"
  unfolding cmd_subst_def NL_def NUL_def by simp_all

lemma captured_at_stub:
  "1 \<le> j \<Longrightarrow> captured_at (stub_engine k) p 0 j
     = (if j = k then ''All done.\<newline><promise>COMPLETE</promise>''
        else ''Still working on the findings.'')"
  by (simp add: captured_at_def output_at_stub stub_captured)

lemma stub_texts:
  "sublist COMPLETION_MARKER ''All done.\<newline><promise>COMPLETE</promise>''"
  "\<not> sublist COMPLETION_MARKER ''Still working on the findings.''"
  unfolding COMPLETION_MARKER_def by code_simp+

text \<open>What the loop tests, in terms of the text as the engine wrote it: the marker is looked
  for in the engine's text with its NUL bytes left out. For a text without NUL bytes this is
  the text itself.\<close>

lemma completion_test_of_engine_text:
  "completion_test (cmd_subst raw)
     \<longleftrightarrow> sublist COMPLETION_MARKER (filter (\<lambda>c. c \<noteq> NUL) raw)"
  by (simp add: completion_test_iff sublist_cmd_subst[OF marker_facts(1,2)])

lemma completion_test_of_plain_engine_text:
  "NUL \<notin> set raw \<Longrightarrow> completion_test (cmd_subst raw) \<longleftrightarrow> sublist COMPLETION_MARKER raw"
  by (simp add: completion_test_of_engine_text cmd_subst_plain)

text \<open>
  Claim C1. For every iteration \<open>k\<close> with \<open>1 \<le> k \<le> max_iterations\<close>: if the engine's output
  at iteration \<open>k\<close>, as the script captures it in \<^verbatim>\<open>output\<close>, contains the completion marker and
  no earlier captured output does, the loop makes exactly \<open>k\<close> engine invocations and ends as
  \<open>Completed\<close> with exit status 0; the world is the one the engine left after its \<open>k\<close>-th
  invocation, so no later iteration ran.
\<close>

theorem ralph_stops_at_first_marker:
  assumes "1 \<le> k" and "k \<le> max_iterations"
    and "sublist COMPLETION_MARKER (captured_at claude p w k)"
    and "\<forall>j. 1 \<le> j \<and> j < k \<longrightarrow> \<not> sublist COMPLETION_MARKER (captured_at claude p w j)"
  shows "fst (ralph_with claude max_iterations p w) = 0
         \<and> status_of_exit (fst (ralph_with claude max_iterations p w)) = Completed
         \<and> invocations (snd (ralph_with claude max_iterations p w)) = k
         \<and> world (snd (ralph_with claude max_iterations p w)) = world_after claude p w k"
proof -
  let ?sh = "echo_out MSG_STARTING (fresh_shell w)"
  have w0: "world ?sh = world_after claude p w (1 - 1)"
    by (simp add: echo_out_def fresh_shell_def)
  have i0: "invocations ?sh = 0" by (simp add: echo_out_def fresh_shell_def)
  from ralph_loop_completes[OF _ assms(1) assms(2) w0 assms(3) assms(4)] i0
  show ?thesis by (simp add: ralph_with_def status_of_exit_def)
qed

theorem ralph_stops_at_first_marker_witness:
  "(1::nat) \<le> 3 \<and> 3 \<le> MAX_ITERATIONS
   \<and> sublist COMPLETION_MARKER (captured_at (stub_engine 3) ''fix it'' 0 3)
   \<and> \<not> sublist COMPLETION_MARKER (captured_at (stub_engine 3) ''fix it'' 0 1)
   \<and> \<not> sublist COMPLETION_MARKER (captured_at (stub_engine 3) ''fix it'' 0 2)
   \<and> fst (ralph_sh (stub_engine 3) ''fix it'' 0) = 0
   \<and> invocations (snd (ralph_sh (stub_engine 3) ''fix it'' 0)) = 3"
proof -
  have h2: "3 \<le> MAX_ITERATIONS" by (simp add: MAX_ITERATIONS_def)
  have h3: "sublist COMPLETION_MARKER (captured_at (stub_engine 3) ''fix it'' 0 3)"
    by (simp add: captured_at_stub stub_texts)
  have h4: "\<forall>j. 1 \<le> j \<and> j < 3 \<longrightarrow> \<not> sublist COMPLETION_MARKER (captured_at (stub_engine 3) ''fix it'' 0 j)"
    by (simp add: captured_at_stub stub_texts)
  have h5: "\<not> sublist COMPLETION_MARKER (captured_at (stub_engine 3) ''fix it'' 0 1)"
    "\<not> sublist COMPLETION_MARKER (captured_at (stub_engine 3) ''fix it'' 0 2)"
    by (simp_all add: captured_at_stub stub_texts)
  from ralph_stops_at_first_marker[OF _ h2 h3 h4] h2 h3 h5 show ?thesis
    by (simp add: ralph_sh_def)
qed

text \<open>
  Claim C2. The loop never makes more than \<open>max_iterations\<close> engine invocations; if no output
  of the iterations \<open>1 .. max_iterations\<close>, as the script captures it in \<^verbatim>\<open>output\<close>, contains the
  completion marker, it makes exactly \<open>max_iterations\<close> invocations and ends as \<open>Exhausted\<close>
  with exit status 1; and the bound of the script is the fixed number 10.
\<close>

theorem ralph_exhausts_after_max_iterations:
  "invocations (snd (ralph_with claude max_iterations p w)) \<le> max_iterations
   \<and> ((\<forall>j. 1 \<le> j \<and> j \<le> max_iterations \<longrightarrow> \<not> sublist COMPLETION_MARKER (captured_at claude p w j))
        \<longrightarrow> fst (ralph_with claude max_iterations p w) = 1
            \<and> status_of_exit (fst (ralph_with claude max_iterations p w)) = Exhausted
            \<and> invocations (snd (ralph_with claude max_iterations p w)) = max_iterations)
   \<and> ralph_sh claude p w = ralph_with claude 10 p w"
proof -
  let ?sh = "echo_out MSG_STARTING (fresh_shell w)"
  have w0: "world ?sh = world_after claude p w (1 - 1)"
    by (simp add: echo_out_def fresh_shell_def)
  have i0: "invocations ?sh = 0" by (simp add: echo_out_def fresh_shell_def)
  have a: "invocations (snd (ralph_with claude max_iterations p w)) \<le> max_iterations"
    using ralph_loop_bound[of claude max_iterations p 1 ?sh] i0 by (simp add: ralph_with_def)
  have b: "fst (ralph_with claude max_iterations p w) = 1
            \<and> status_of_exit (fst (ralph_with claude max_iterations p w)) = Exhausted
            \<and> invocations (snd (ralph_with claude max_iterations p w)) = max_iterations"
    if h: "\<forall>j. 1 \<le> j \<and> j \<le> max_iterations \<longrightarrow> \<not> sublist COMPLETION_MARKER (captured_at claude p w j)"
    using ralph_loop_exhausts[OF _ _ w0 h] i0 by (simp add: ralph_with_def status_of_exit_def)
  have c: "ralph_sh claude p w = ralph_with claude 10 p w"
    by (simp add: ralph_sh_def MAX_ITERATIONS_def)
  from a b c show ?thesis by blast
qed

theorem ralph_exhausts_after_max_iterations_witness:
  "list_all (\<lambda>j. \<not> sublist COMPLETION_MARKER (captured_at (stub_engine 0) ''fix it'' 0 j)) [1..<6]
   \<and> fst (ralph_with (stub_engine 0) 5 ''fix it'' 0) = 1
   \<and> invocations (snd (ralph_with (stub_engine 0) 5 ''fix it'' 0)) = 5
   \<and> fst (ralph_sh (stub_engine 0) ''fix it'' 0) = 1
   \<and> invocations (snd (ralph_sh (stub_engine 0) ''fix it'' 0)) = 10"
proof -
  have h: "\<forall>j. 1 \<le> j \<and> j \<le> m \<longrightarrow> \<not> sublist COMPLETION_MARKER (captured_at (stub_engine 0) ''fix it'' 0 j)" for m
    by (simp add: captured_at_stub stub_texts)
  have l: "list_all (\<lambda>j. \<not> sublist COMPLETION_MARKER (captured_at (stub_engine 0) ''fix it'' 0 j)) [1..<6]"
    by (simp add: list_all_iff captured_at_stub stub_texts)
  from ralph_exhausts_after_max_iterations[of "stub_engine 0" 5 "''fix it''" 0]
       ralph_exhausts_after_max_iterations[of "stub_engine 0" 10 "''fix it''" 0] h[of 5] h[of 10] l
  show ?thesis by simp
qed

text \<open>
  Claim C3. For every text held in \<^verbatim>\<open>output\<close>, the completion test of the loop succeeds exactly
  when the marker literal occurs in it as a contiguous piece, letter case included, whatever
  text surrounds it.
\<close>

theorem completion_test_is_exact_substring_search:
  "completion_test output \<longleftrightarrow> sublist COMPLETION_MARKER output"
  by (rule completion_test_iff)

theorem completion_test_is_exact_substring_search_witness:
  "completion_test ''Tests pass. <promise>COMPLETE</promise> Bye.''
   \<and> \<not> completion_test ''COMPLETE''
   \<and> \<not> completion_test ''<promise>complete</promise>''
   \<and> \<not> completion_test ''<promise>COMPLETE</promise''"
proof -
  have "sublist COMPLETION_MARKER ''Tests pass. <promise>COMPLETE</promise> Bye.''"
    "\<not> sublist COMPLETION_MARKER ''COMPLETE''"
    "\<not> sublist COMPLETION_MARKER ''<promise>complete</promise>''"
    "\<not> sublist COMPLETION_MARKER ''<promise>COMPLETE</promise''"
    unfolding COMPLETION_MARKER_def by code_simp+
  then show ?thesis
    using completion_test_is_exact_substring_search[of "''Tests pass. <promise>COMPLETE</promise> Bye.''"]
      completion_test_is_exact_substring_search[of "''COMPLETE''"]
      completion_test_is_exact_substring_search[of "''<promise>complete</promise>''"]
      completion_test_is_exact_substring_search[of "''<promise>COMPLETE</promise''"]
    by simp
qed

section \<open>Properties of the review fan-out\<close>

lemma step_out_of_range: "\<not> j < length (jobs g) \<Longrightarrow> run_agent_step env j g = g"
  by (simp add: run_agent_step_def)

lemma step_length [simp]: "length (jobs (run_agent_step env j g)) = length (jobs g)"
  by (simp add: run_agent_step_def Let_def append_report_def)

lemma step_context [simp]:
  "code_context (run_agent_step env j g) = code_context g"
  "target_dir (run_agent_step env j g) = target_dir g"
  by (simp_all add: run_agent_step_def Let_def append_report_def)

lemma step_other: "k \<noteq> j \<Longrightarrow> jobs (run_agent_step env j g) ! k = jobs g ! k"
  by (simp add: run_agent_step_def Let_def append_report_def)

lemma step_name [simp]:
  "job_name (jobs (run_agent_step env j g) ! k) = job_name (jobs g ! k)"
  "job_prompt_path (jobs (run_agent_step env j g) ! k) = job_prompt_path (jobs g ! k)"
  by (cases "k = j"; simp add: run_agent_step_def Let_def append_report_def)+

lemma step_pc:
  "j < length (jobs g) \<Longrightarrow>
   job_pc (jobs (run_agent_step env j g) ! j)
     = (if job_pc (jobs g ! j) < 5 then Suc (job_pc (jobs g ! j)) else job_pc (jobs g ! j))"
  by (simp add: run_agent_step_def Let_def append_report_def)

lemma step_result:
  "j < length (jobs g) \<Longrightarrow>
   job_result (jobs (run_agent_step env j g) ! j)
     = (if job_pc (jobs g ! j) = 1
        then cmd_subst (combined_output (claude_review env j
               (build_full_prompt (cmd_subst (cat_file env (job_prompt_path (jobs g ! j))))
                  (code_context g))))
        else job_result (jobs g ! j))"
  by (simp add: run_agent_step_def Let_def append_report_def)

lemma step_report:
  "j < length (jobs g) \<Longrightarrow>
   report_file (run_agent_step env j g)
     = report_file g @
       (if job_pc (jobs g ! j) = 2 then [(Some j, bash_echo (SECTION_PREFIX @ job_name (jobs g ! j)))]
        else if job_pc (jobs g ! j) = 3 then [(Some j, bash_echo (job_result (jobs g ! j)))]
        else if job_pc (jobs g ! j) = 4 then [(Some j, bash_echo SEPARATOR)]
        else [])"
  by (simp add: run_agent_step_def Let_def append_report_def)

lemma consistent_start: "consistent env agents args (gauntlet_start env agents args)"
  by (simp add: consistent_def job_ok_def gauntlet_start_def Let_def new_job_def)

lemma consistent_step:
  assumes "consistent env agents args g"
  shows "consistent env agents args (run_agent_step env k g)"
proof (cases "k < length (jobs g)")
  case False
  with assms show ?thesis by (simp add: step_out_of_range)
next
  case True
  have "job_ok env agents args (run_agent_step env k g) j" if j: "j < length agents" for j
  proof (cases "j = k")
    case False
    with assms j show ?thesis
      by (simp add: consistent_def job_ok_def step_other)
  next
    case e: True
    from assms j have ok: "job_ok env agents args g j" and c: "code_context g = cmd_subst (find_cat env (TARGET_DIR args))"
      by (simp_all add: consistent_def)
    from ok True e show ?thesis
      unfolding job_ok_def
      by (auto simp add: step_pc step_result c agent_result_def)
  qed
  with assms show ?thesis by (simp add: consistent_def)
qed

lemma consistent_run:
  "consistent env agents args g \<Longrightarrow> consistent env agents args (run_schedule env s g)"
  unfolding run_schedule_def
  by (induction s arbitrary: g) (simp_all add: consistent_step)

lemma run_schedule_Cons:
  "run_schedule env (k # s) g = run_schedule env s (run_agent_step env k g)"
  by (simp add: run_schedule_def)

lemma run_schedule_Nil: "run_schedule env [] g = g"
  by (simp add: run_schedule_def)

lemma run_schedule_append:
  "run_schedule env (a @ b) g = run_schedule env b (run_schedule env a g)"
  by (simp add: run_schedule_def)

lemma run_length [simp]: "length (jobs (run_schedule env s g)) = length (jobs g)"
  by (induction s arbitrary: g) (simp_all add: run_schedule_Cons run_schedule_Nil)

lemma run_pc:
  "j < length (jobs g) \<Longrightarrow> job_pc (jobs g ! j) \<le> 5 \<Longrightarrow>
   job_pc (jobs (run_schedule env s g) ! j) = min 5 (job_pc (jobs g ! j) + count_list s j)"
proof (induction s arbitrary: g)
  case Nil
  then show ?case by (simp add: run_schedule_Nil)
next
  case (Cons k s)
  show ?case
  proof (cases "k = j")
    case True
    have "job_pc (jobs (run_agent_step env k g) ! j) \<le> 5"
      using Cons.prems True by (simp add: step_pc)
    from Cons.IH[of "run_agent_step env k g", OF _ this] Cons.prems True
    show ?thesis by (simp add: run_schedule_Cons step_pc)
  next
    case False
    then have "jobs (run_agent_step env k g) ! j = jobs g ! j" by (simp add: step_other)
    with Cons.IH[of "run_agent_step env k g"] Cons.prems False
    show ?thesis by (simp add: run_schedule_Cons)
  qed
qed

lemma start_facts:
  "length (jobs (gauntlet_start env agents args)) = length agents"
  "j < length agents \<Longrightarrow> job_pc (jobs (gauntlet_start env agents args) ! j) = 0"
  "target_dir (gauntlet_start env agents args) = TARGET_DIR args"
  by (simp_all add: gauntlet_start_def Let_def new_job_def comp_def)

lemma complete_all_done:
  assumes "complete_schedule (length agents) sched"
  shows "j < length agents \<Longrightarrow>
         job_pc (jobs (run_schedule env sched (gauntlet_start env agents args)) ! j) = 5"
    and "all_done (run_schedule env sched (gauntlet_start env agents args))"
proof -
  have pc: "job_pc (jobs (run_schedule env sched (gauntlet_start env agents args)) ! j) = 5"
    if "j < length agents" for j
  proof -
    from assms that have "5 \<le> count_list sched j"
      by (simp add: complete_schedule_def list_all_iff)
    then show ?thesis
      using run_pc[of j "gauntlet_start env agents args" env sched] that
      by (simp add: start_facts)
  qed
  then show "j < length agents \<Longrightarrow>
         job_pc (jobs (run_schedule env sched (gauntlet_start env agents args)) ! j) = 5" .
  from pc show "all_done (run_schedule env sched (gauntlet_start env agents args))"
    by (simp add: all_done_def list_all_length start_facts)
qed

lemma consistentD:
  assumes "consistent env agents args g" "j < length agents"
  shows "j < length (jobs g)" "job_name (jobs g ! j) = fst (agents ! j)"
    "2 \<le> job_pc (jobs g ! j) \<Longrightarrow> job_result (jobs g ! j) = agent_result env agents args j"
  using assms by (simp_all add: consistent_def job_ok_def)

lemma section_pieces_text:
  "concat (map snd (concat (map (section_pieces env agents args) order)))
   = concat (map (\<lambda>j. section_text (fst (agents ! j)) (agent_result env agents args j)) order)"
  by (induction order) (simp_all add: section_pieces_def section_text_def)

lemma start_text:
  "concat (map snd (report_file (gauntlet_start env agents args)))
   = header_text (TARGET_DIR args) (cmd_subst (date_out env))"
  by (simp add: gauntlet_start_def Let_def header_text_def)

lemma count_list_snoc: "count_list (xs @ [x]) y = count_list xs y + (if x = y then 1 else 0)"
  by (induction xs) simp_all

lemma run_trace:
  assumes "consistent env agents args g"
    and "\<forall>j < length agents. job_pc (jobs g ! j) = min 5 (count_list seen j)"
  shows "report_file (run_schedule env s g)
         = report_file g
           @ map (\<lambda>e. section_pieces env agents args (fst e) ! (snd e - 2))
               (append_trace (length agents) seen s)"
  using assms
proof (induction s arbitrary: g seen)
  case Nil
  then show ?case by (simp add: run_schedule_Nil)
next
  case (Cons k s)
  let ?g = "run_agent_step env k g"
  note c1 = consistent_step[OF Cons.prems(1), of k]
  have len: "length (jobs g) = length agents" using Cons.prems(1) by (simp add: consistent_def)
  have pcs: "\<forall>j < length agents. job_pc (jobs ?g ! j) = min 5 (count_list (seen @ [k]) j)"
  proof (intro allI impI)
    fix j assume j: "j < length agents"
    from Cons.prems(2) j have p: "job_pc (jobs g ! j) = min 5 (count_list seen j)" by blast
    show "job_pc (jobs ?g ! j) = min 5 (count_list (seen @ [k]) j)"
    proof (cases "k = j")
      case True
      with j len p show ?thesis by (simp add: step_pc count_list_snoc)
    next
      case False
      with p show ?thesis by (simp add: step_other count_list_snoc)
    qed
  qed
  have st: "report_file ?g
            = report_file g
              @ map (\<lambda>e. section_pieces env agents args (fst e) ! (snd e - 2))
                  (if k < length agents \<and> 2 \<le> count_list seen k \<and> count_list seen k < 5
                   then [(k, count_list seen k)] else [])"
  proof (cases "k < length agents")
    case False
    with len show ?thesis by (simp add: step_out_of_range)
  next
    case True
    note d = consistentD[OF Cons.prems(1) True]
    from Cons.prems(2) True have p: "job_pc (jobs g ! k) = min 5 (count_list seen k)" by blast
    consider "count_list seen k < 2" | "count_list seen k = 2" | "count_list seen k = 3"
      | "count_list seen k = 4" | "5 \<le> count_list seen k" by linarith
    then show ?thesis
    proof cases
      case 1
      with p True show ?thesis by (simp add: step_report[OF d(1)])
    next
      case 2
      with p True d(2) show ?thesis by (simp add: step_report[OF d(1)] section_pieces_def)
    next
      case 3
      with p True d(3) show ?thesis by (simp add: step_report[OF d(1)] section_pieces_def)
    next
      case 4
      with p True show ?thesis by (simp add: step_report[OF d(1)] section_pieces_def)
    next
      case 5
      with p True show ?thesis by (simp add: step_report[OF d(1)])
    qed
  qed
  from Cons.IH[OF c1 pcs] st show ?case
    by (simp add: run_schedule_Cons)
qed

lemma pieces_in_turn:
  "map (\<lambda>e. section_pieces env agents args (fst e) ! (snd e - 2))
     (concat (map (\<lambda>j. [(j, 2), (j, 3), (j, 4)]) order))
   = concat (map (section_pieces env agents args) order)"
  by (induction order) (simp_all add: section_pieces_def)

lemma in_turn_report_text:
  assumes "complete_schedule (length agents) sched"
    and "appends_in_turn (length agents) sched order"
  shows "\<exists>g. run_gauntlet_with env agents args sched = Some g
             \<and> report_text g
                 = header_text (TARGET_DIR args) (cmd_subst (date_out env))
                   @ concat (map (\<lambda>j. section_text (fst (agents ! j)) (agent_result env agents args j))
                               order)"
proof -
  let ?g0 = "gauntlet_start env agents args"
  have "report_file (run_schedule env sched ?g0)
        = report_file ?g0
          @ map (\<lambda>e. section_pieces env agents args (fst e) ! (snd e - 2))
              (append_trace (length agents) [] sched)"
    by (rule run_trace[OF consistent_start]) (simp add: start_facts)
  then have "report_file (run_schedule env sched ?g0)
        = report_file ?g0 @ concat (map (section_pieces env agents args) order)"
    using assms(2) by (simp add: appends_in_turn_def pieces_in_turn)
  then show ?thesis
    using complete_all_done(2)[OF assms(1), of env args]
    by (simp add: run_gauntlet_with_def Let_def report_text_def section_pieces_text start_text)
qed

lemma echo_plain: "\<not> is_echo_option a \<Longrightarrow> bash_echo a = a @ [NL]"
  by (simp add: bash_echo_def)

lemma not_options:
  "\<not> is_echo_option (SECTION_PREFIX @ n)"
  "\<not> is_echo_option SEPARATOR"
  "\<not> is_echo_option ''# Council of Agents Report''"
  "\<not> is_echo_option (''Target: '' @ t)"
  "\<not> is_echo_option (''Date: '' @ d)"
  by (simp_all add: is_echo_option_def SECTION_PREFIX_def SEPARATOR_def echo_flag_def)

lemma header_text_plain:
  "header_text target date_text
   = ''# Council of Agents Report'' @ [NL] @ ''Target: '' @ target @ [NL]
     @ ''Date: '' @ date_text @ [NL] @ SEPARATOR @ [NL]"
  by (simp only: header_text_def echo_plain[OF not_options(2)] echo_plain[OF not_options(3)]
        echo_plain[OF not_options(4)] echo_plain[OF not_options(5)] append_assoc)

lemma section_text_plain:
  "\<not> is_echo_option result \<Longrightarrow>
   section_text name result
   = ''## '' @ AGENT_ICON @ '' Agent: '' @ name @ [NL] @ result @ [NL] @ SEPARATOR @ [NL]"
proof -
  assume r: "\<not> is_echo_option result"
  have "section_text name result = (SECTION_PREFIX @ name) @ [NL] @ result @ [NL] @ SEPARATOR @ [NL]"
    by (simp only: section_text_def echo_plain[OF not_options(1)] echo_plain[OF not_options(2)]
          echo_plain[OF r] append_assoc)
  then show ?thesis by (simp only: SECTION_PREFIX_def append_assoc)
qed

lemma example_schedules:
  "complete_schedule (length AGENTS) schedule_in_order"
  "appends_in_turn (length AGENTS) schedule_in_order [0, 1, 2, 3]"
  "complete_schedule (length AGENTS) schedule_architect_first"
  "appends_in_turn (length AGENTS) schedule_architect_first [1, 0, 2, 3]"
  "complete_schedule (length AGENTS) schedule_interleaved"
  by code_simp+

lemma ralph_with_exit:
  "fst (ralph_with claude m p w)
   = (if \<exists>k. 1 \<le> k \<and> k \<le> m \<and> sublist COMPLETION_MARKER (captured_at claude p w k) then 0 else 1)"
proof -
  let ?P = "\<lambda>k. 1 \<le> k \<and> k \<le> m \<and> sublist COMPLETION_MARKER (captured_at claude p w k)"
  let ?sh = "echo_out MSG_STARTING (fresh_shell w)"
  have w0: "world ?sh = world_after claude p w (1 - 1)"
    by (simp add: echo_out_def fresh_shell_def)
  show ?thesis
  proof (cases "\<exists>k. ?P k")
    case True
    then obtain k where k: "?P k" and least: "\<forall>j<k. \<not> ?P j"
      using exists_least_iff[of ?P] by blast
    from k least have "\<forall>j. 1 \<le> j \<and> j < k \<longrightarrow> \<not> sublist COMPLETION_MARKER (captured_at claude p w j)"
      by auto
    from ralph_loop_completes[OF _ _ _ w0 _ this, of m] k True
    show ?thesis by (simp add: ralph_with_def)
  next
    case False
    then have "\<forall>j. 1 \<le> j \<and> j \<le> m \<longrightarrow> \<not> sublist COMPLETION_MARKER (captured_at claude p w j)"
      by auto
    from ralph_loop_exhausts[OF _ _ w0 this] False
    show ?thesis by (simp add: ralph_with_def)
  qed
qed

lemma run_target [simp]: "target_dir (run_schedule env s g) = target_dir g"
  by (induction s arbitrary: g) (simp_all add: run_schedule_Nil run_schedule_Cons)

lemma review_ends:
  assumes "complete_schedule (length AGENTS) sched"
  shows "\<exists>g. run_gauntlet_sh env args sched = Some g \<and> target_dir g = TARGET_DIR args"
  using complete_all_done(2)[OF assms, of env args]
  by (simp add: run_gauntlet_sh_def run_gauntlet_with_def Let_def run_schedule_def[symmetric]
        start_facts)

section \<open>The order of the sections\<close>

text \<open>
  Claim C4, as stated, fails: when job 1 (Architect) appends its section before job 0
  (QA Engineer), the first section of the report is the Architect's and the second the QA
  Engineer's, and the report differs from the one assembled in registration order.
\<close>

theorem sections_follow_completion_not_registration:
  "report_lines (run_gauntlet_sh example_env [] schedule_architect_first) ! 4
     = SECTION_PREFIX @ ''Architect''
   \<and> report_lines (run_gauntlet_sh example_env [] schedule_architect_first) ! 7
     = SECTION_PREFIX @ ''QA Engineer''
   \<and> map_option report_text (run_gauntlet_sh example_env [] schedule_architect_first)
     \<noteq> Some (registration_order_report example_env AGENTS [])"
  by code_simp

text \<open>
  Claim C4, amended. When the jobs append their sections one after the other, the sections
  of the report appear in the order in which the jobs append them, that is in completion
  order; the report is the one assembled in registration order when the jobs complete in
  registration order.
\<close>

theorem sections_in_completion_order:
  assumes "complete_schedule (length agents) sched"
    and "appends_in_turn (length agents) sched order"
  shows "\<exists>g. run_gauntlet_with env agents args sched = Some g
             \<and> report_text g
                 = header_text (TARGET_DIR args) (cmd_subst (date_out env))
                   @ concat (map (\<lambda>j. section_text (fst (agents ! j)) (agent_result env agents args j))
                               order)
             \<and> (order = [0..<length agents]
                  \<longrightarrow> report_text g = registration_order_report env agents args)"
proof -
  from in_turn_report_text[OF assms, of env args] obtain g where
    g: "run_gauntlet_with env agents args sched = Some g"
    and t: "report_text g
                 = header_text (TARGET_DIR args) (cmd_subst (date_out env))
                   @ concat (map (\<lambda>j. section_text (fst (agents ! j)) (agent_result env agents args j))
                               order)"
    by blast
  from t have "order = [0..<length agents] \<longrightarrow> report_text g = registration_order_report env agents args"
    by (simp add: registration_order_report_def)
  with g t show ?thesis by blast
qed

theorem sections_in_completion_order_witness:
  "complete_schedule (length AGENTS) schedule_architect_first
   \<and> appends_in_turn (length AGENTS) schedule_architect_first [1, 0, 2, 3]
   \<and> (\<exists>g. run_gauntlet_sh example_env [] schedule_architect_first = Some g
          \<and> report_text g
              = header_text ''.'' ''Wed Nov  4 10:00:00 UTC 2026''
                @ section_text ''Architect'' ''Error: connection refused''
                @ section_text ''QA Engineer'' ''NO ISSUES FOUND''
                @ section_text ''Librarian'' ''Rename f to parse''
                @ section_text ''Domain Warden'' ''No domain violations'')"
proof -
  have r: "agent_result example_env AGENTS [] 0 = ''NO ISSUES FOUND''"
    "agent_result example_env AGENTS [] (Suc 0) = ''Error: connection refused''"
    "agent_result example_env AGENTS [] 2 = ''Rename f to parse''"
    "agent_result example_env AGENTS [] 3 = ''No domain violations''"
    by code_simp+
  have d: "cmd_subst (date_out example_env) = ''Wed Nov  4 10:00:00 UTC 2026''"
    by (simp add: example_env_def cmd_subst_def NL_def NUL_def)
  have n: "fst (AGENTS ! 0) = ''QA Engineer''" "fst (AGENTS ! Suc 0) = ''Architect''"
    "fst (AGENTS ! 2) = ''Librarian''" "fst (AGENTS ! 3) = ''Domain Warden''"
    by (simp_all add: AGENTS_def)
  from sections_in_completion_order[OF example_schedules(3,4), of example_env "[]"]
  obtain g where "run_gauntlet_with example_env AGENTS [] schedule_architect_first = Some g"
    and "report_text g
          = header_text (TARGET_DIR []) (cmd_subst (date_out example_env))
            @ concat (map (\<lambda>j. section_text (fst (AGENTS ! j)) (agent_result example_env AGENTS [] j))
                        [1, 0, 2, 3])"
    by blast
  then have "run_gauntlet_sh example_env [] schedule_architect_first = Some g
          \<and> report_text g
              = header_text ''.'' ''Wed Nov  4 10:00:00 UTC 2026''
                @ section_text ''Architect'' ''Error: connection refused''
                @ section_text ''QA Engineer'' ''NO ISSUES FOUND''
                @ section_text ''Librarian'' ''Rename f to parse''
                @ section_text ''Domain Warden'' ''No domain violations''"
    by (simp add: run_gauntlet_sh_def r d n TARGET_DIR_def)
  then show ?thesis using example_schedules(3,4) by blast
qed

section \<open>Failures of single agents\<close>

lemma append_trace_count:
  "count_list (append_trace n seen s) (j, c)
   = (if j < n \<and> 2 \<le> c \<and> c < 5 \<and> count_list seen j \<le> c \<and> c < count_list seen j + count_list s j
      then 1 else 0)"
proof (induction s arbitrary: seen)
  case Nil
  then show ?case by simp
next
  case (Cons k s)
  show ?case
  proof (cases "k = j")
    case True
    then show ?thesis by (simp add: Cons.IH count_list_snoc)
  next
    case False
    then show ?thesis by (simp add: Cons.IH count_list_snoc)
  qed
qed

lemma in_turn_count:
  "count_list (concat (map (\<lambda>j. [(j, 2::nat), (j, 3), (j, 4)]) order)) (j, 2) = count_list order j"
  by (induction order) simp_all

lemma distinct_count_le:
  assumes "\<And>a. count_list xs a \<le> 1"
  shows "distinct xs"
  using assms
proof (induction xs)
  case Nil
  then show ?case by simp
next
  case (Cons x xs)
  have e: "count_list (x # xs) x = count_list xs x + 1" by simp
  from Cons.prems[of x] e have "count_list xs x = 0" by linarith
  then have n: "x \<notin> set xs" using count_list_0_iff[of xs x] by blast
  have "count_list xs a \<le> 1" for a
    using Cons.prems[of a] by (simp split: if_splits)
  from Cons.IH[OF this] n show ?case by simp
qed

lemma in_turn_order:
  assumes "complete_schedule n sched" and "appends_in_turn n sched order"
  shows "distinct order" and "set order = {0..<n}"
proof -
  have c: "count_list order j = (if j < n then 1 else 0)" for j
  proof -
    have "count_list order j = count_list (append_trace n [] sched) (j, 2)"
      using assms(2) by (simp only: appends_in_turn_def in_turn_count)
    also have "\<dots> = (if j < n \<and> 2 < count_list sched j then 1 else 0)"
      by (simp add: append_trace_count)
    also have "\<dots> = (if j < n then 1 else 0)"
    proof (cases "j < n")
      case True
      with assms(1) have "5 \<le> count_list sched j"
        by (simp add: complete_schedule_def list_all_iff)
      with True show ?thesis by simp
    next
      case False
      then show ?thesis by simp
    qed
    finally show ?thesis .
  qed
  have m: "j \<in> set order \<longleftrightarrow> j < n" for j
    using c[of j] count_list_0_iff[of order j] by (cases "j < n") simp_all
  show "set order = {0..<n}" by (intro set_eqI) (simp add: m)
  have "count_list order a \<le> 1" for a by (simp only: c) simp
  then show "distinct order" by (rule distinct_count_le)
qed

lemma sublist_concat_map:
  assumes "x \<in> set xs"
  shows "sublist (f x) (concat (map f xs))"
proof -
  from assms obtain ys zs where "xs = ys @ x # zs" by (auto dest: split_list)
  then have "concat (map f xs) = concat (map f ys) @ f x @ concat (map f zs)" by simp
  then show ?thesis unfolding sublist_def by blast
qed

lemma sublist_after:
  assumes "sublist xs ys"
  shows "sublist xs (zs @ ys)"
proof -
  from assms obtain ps ss where "ys = ps @ xs @ ss" by (auto simp: sublist_def)
  then have "zs @ ys = (zs @ ps) @ xs @ ss" by simp
  then show ?thesis unfolding sublist_def by blast
qed

text \<open>
  Claim C5, as stated, fails. When two jobs append in turns, line by line, the report does
  not hold a section of the first agent: its header line is followed by the header line
  of the second agent, then come the two outputs, then the two separator lines. And a
  captured output that \<^verbatim>\<open>echo\<close> takes as an option leaves no line in the report.
\<close>

theorem sections_of_concurrent_jobs_interleave:
  "map_option (\<lambda>g. sublist (section_text ''QA Engineer'' ''NO ISSUES FOUND'') (report_text g))
     (run_gauntlet_sh example_env [] schedule_interleaved) = Some False
   \<and> take 6 (drop 4 (report_lines (run_gauntlet_sh example_env [] schedule_interleaved)))
       = [''## '' @ AGENT_ICON @ '' Agent: QA Engineer'',
          ''## '' @ AGENT_ICON @ '' Agent: Architect'',
          ''NO ISSUES FOUND'',
          ''Error: connection refused'',
          SEPARATOR,
          SEPARATOR]
   \<and> text_lines (section_text ''Architect'' ''-n'')
       = [''## '' @ AGENT_ICON @ '' Agent: Architect'', SEPARATOR]"
  by code_simp

text \<open>
  Claim C5, amended. Whatever the engine calls end with, in every execution in which the
  jobs append their sections one after the other, and no captured output is an option of
  \<^verbatim>\<open>echo\<close>, the script ends with a report that is the header followed by exactly one section
  per agent: \<open>order\<close>, the order of completion, has every agent once. The section of an agent
  is its header line, the text its engine call wrote to standard output and standard error
  (without the trailing newlines) and a newline, and the separator line; the exit status of
  the call plays no part, so the section of a failed call holds the messages of the failure.
  And that section stands unchanged in the report of every such execution under another
  environment in which the code context, the prompt files and the call of this agent are the
  same, whatever the calls of the other agents end with.
\<close>

theorem fan_out_sections:
  assumes "complete_schedule (length agents) sched"
    and "appends_in_turn (length agents) sched order"
    and "list_all (\<lambda>j. \<not> is_echo_option (agent_result env agents args j)) order"
  shows "\<exists>g. run_gauntlet_with env agents args sched = Some g
             \<and> report_text g
                 = header_text (TARGET_DIR args) (cmd_subst (date_out env))
                   @ concat (map (\<lambda>j. ''## '' @ AGENT_ICON @ '' Agent: '' @ fst (agents ! j) @ [NL]
                       @ cmd_subst (combined_output (claude_review env j
                           (build_full_prompt (cmd_subst (cat_file env (snd (agents ! j))))
                              (cmd_subst (find_cat env (TARGET_DIR args))))))
                       @ [NL] @ SEPARATOR @ [NL]) order)
             \<and> distinct order \<and> set order = {0..<length agents} \<and> length order = length agents
             \<and> (\<forall>env' j. j < length agents
                    \<and> find_cat env' = find_cat env \<and> cat_file env' = cat_file env
                    \<and> claude_review env' j = claude_review env j
                   \<longrightarrow> (\<exists>g'. run_gauntlet_with env' agents args sched = Some g'
                          \<and> sublist (''## '' @ AGENT_ICON @ '' Agent: '' @ fst (agents ! j) @ [NL]
                                @ cmd_subst (combined_output (claude_review env j
                                    (build_full_prompt (cmd_subst (cat_file env (snd (agents ! j))))
                                       (cmd_subst (find_cat env (TARGET_DIR args))))))
                                @ [NL] @ SEPARATOR @ [NL])
                              (report_text g')))"
proof -
  let ?sec = "\<lambda>j. ''## '' @ AGENT_ICON @ '' Agent: '' @ fst (agents ! j) @ [NL]
                       @ cmd_subst (combined_output (claude_review env j
                           (build_full_prompt (cmd_subst (cat_file env (snd (agents ! j))))
                              (cmd_subst (find_cat env (TARGET_DIR args))))))
                       @ [NL] @ SEPARATOR @ [NL]"
  note o = in_turn_order[OF assms(1,2)]
  have plain: "section_text (fst (agents ! j)) (agent_result env agents args j) = ?sec j"
    if "j \<in> set order" for j
  proof -
    from that assms(3) have "\<not> is_echo_option (agent_result env agents args j)"
      by (simp add: list_all_iff)
    from section_text_plain[OF this] show ?thesis by (simp only: agent_result_def)
  qed
  from in_turn_report_text[OF assms(1,2), of env args] obtain g where
    g: "run_gauntlet_with env agents args sched = Some g"
    and t: "report_text g
                 = header_text (TARGET_DIR args) (cmd_subst (date_out env))
                   @ concat (map (\<lambda>j. section_text (fst (agents ! j)) (agent_result env agents args j))
                               order)"
    by blast
  have "map (\<lambda>j. section_text (fst (agents ! j)) (agent_result env agents args j)) order
        = map ?sec order"
    by (intro map_cong refl plain)
  with t have a: "report_text g
                 = header_text (TARGET_DIR args) (cmd_subst (date_out env)) @ concat (map ?sec order)"
    by (simp only:)
  have l: "length order = length agents"
    using distinct_card[OF o(1)] o(2) by simp
  have b: "\<exists>g'. run_gauntlet_with env' agents args sched = Some g' \<and> sublist (?sec j) (report_text g')"
    if h: "j < length agents \<and> find_cat env' = find_cat env \<and> cat_file env' = cat_file env
                    \<and> claude_review env' j = claude_review env j" for env' j
  proof -
    from h o(2) have j: "j \<in> set order" by simp
    from h have "agent_result env' agents args j = agent_result env agents args j"
      by (simp add: agent_result_def)
    with plain[OF j]
    have s: "section_text (fst (agents ! j)) (agent_result env' agents args j) = ?sec j"
      by (simp only:)
    from in_turn_report_text[OF assms(1,2), of env' args] obtain g' where
      g': "run_gauntlet_with env' agents args sched = Some g'"
      and t': "report_text g'
                 = header_text (TARGET_DIR args) (cmd_subst (date_out env'))
                   @ concat (map (\<lambda>j. section_text (fst (agents ! j)) (agent_result env' agents args j))
                               order)"
      by blast
    from sublist_concat_map[OF j,
        of "\<lambda>j. section_text (fst (agents ! j)) (agent_result env' agents args j)"] s
    have "sublist (?sec j)
            (concat (map (\<lambda>j. section_text (fst (agents ! j)) (agent_result env' agents args j)) order))"
      by (simp only:)
    then have "sublist (?sec j) (report_text g')"
      unfolding t' by (rule sublist_after)
    with g' show ?thesis by blast
  qed
  from g a o l b show ?thesis by blast
qed

theorem fan_out_sections_witness:
  "complete_schedule (length AGENTS) schedule_architect_first
   \<and> appends_in_turn (length AGENTS) schedule_architect_first [1, 0, 2, 3]
   \<and> list_all (\<lambda>j. \<not> is_echo_option (agent_result example_env AGENTS [] j)) [1, 0, 2, 3]
   \<and> exit_status (claude_review example_env 1 []) = 1
   \<and> (\<exists>g. run_gauntlet_sh example_env [] schedule_architect_first = Some g
          \<and> report_text g
              = header_text ''.'' ''Wed Nov  4 10:00:00 UTC 2026''
                @ ''## '' @ AGENT_ICON @ '' Agent: Architect\<newline>''
                @ ''Error: connection refused\<newline>''
                @ ''------------------------------------------------\<newline>''
                @ ''## '' @ AGENT_ICON @ '' Agent: QA Engineer\<newline>''
                @ ''NO ISSUES FOUND\<newline>''
                @ ''------------------------------------------------\<newline>''
                @ ''## '' @ AGENT_ICON @ '' Agent: Librarian\<newline>''
                @ ''Rename f to parse\<newline>''
                @ ''------------------------------------------------\<newline>''
                @ ''## '' @ AGENT_ICON @ '' Agent: Domain Warden\<newline>''
                @ ''No domain violations\<newline>''
                @ ''------------------------------------------------\<newline>'')
   \<and> (\<exists>g. run_gauntlet_sh others_fail_env [] schedule_architect_first = Some g
          \<and> sublist (''## '' @ AGENT_ICON @ '' Agent: QA Engineer\<newline>''
                      @ ''NO ISSUES FOUND\<newline>''
                      @ ''------------------------------------------------\<newline>'')
               (report_text g))"
proof -
  have r: "agent_result example_env AGENTS [] 0 = ''NO ISSUES FOUND''"
    "agent_result example_env AGENTS [] (Suc 0) = ''Error: connection refused''"
    "agent_result example_env AGENTS [] 2 = ''Rename f to parse''"
    "agent_result example_env AGENTS [] 3 = ''No domain violations''"
    by code_simp+
  have h: "list_all (\<lambda>j. \<not> is_echo_option (agent_result example_env AGENTS [] j)) [1, 0, 2, 3]"
    by (simp add: r is_echo_option_def)
  have x: "exit_status (claude_review example_env 1 []) = 1" by (simp add: example_env_def)
  have d: "cmd_subst (date_out example_env) = ''Wed Nov  4 10:00:00 UTC 2026''"
    by (simp add: example_env_def cmd_subst_def NL_def NUL_def)
  have n: "fst (AGENTS ! 0) = ''QA Engineer''" "fst (AGENTS ! Suc 0) = ''Architect''"
    "fst (AGENTS ! 2) = ''Librarian''" "fst (AGENTS ! 3) = ''Domain Warden''"
    by (simp_all add: AGENTS_def)
  have same: "0 < length AGENTS \<and> find_cat others_fail_env = find_cat example_env
              \<and> cat_file others_fail_env = cat_file example_env
              \<and> claude_review others_fail_env 0 = claude_review example_env 0"
    by (simp add: others_fail_env_def AGENTS_def)
  from fan_out_sections[OF example_schedules(3,4) h]
  obtain g where g: "run_gauntlet_with example_env AGENTS [] schedule_architect_first = Some g"
    and t: "report_text g
          = header_text (TARGET_DIR []) (cmd_subst (date_out example_env))
            @ concat (map (\<lambda>j. ''## '' @ AGENT_ICON @ '' Agent: '' @ fst (AGENTS ! j) @ [NL]
                       @ cmd_subst (combined_output (claude_review example_env j
                           (build_full_prompt (cmd_subst (cat_file example_env (snd (AGENTS ! j))))
                              (cmd_subst (find_cat example_env (TARGET_DIR []))))))
                       @ [NL] @ SEPARATOR @ [NL]) [1, 0, 2, 3])"
    and o: "\<forall>env' j. j < length AGENTS
                    \<and> find_cat env' = find_cat example_env \<and> cat_file env' = cat_file example_env
                    \<and> claude_review env' j = claude_review example_env j
                   \<longrightarrow> (\<exists>g'. run_gauntlet_with env' AGENTS [] schedule_architect_first = Some g'
                          \<and> sublist (''## '' @ AGENT_ICON @ '' Agent: '' @ fst (AGENTS ! j) @ [NL]
                                @ cmd_subst (combined_output (claude_review example_env j
                                    (build_full_prompt (cmd_subst (cat_file example_env (snd (AGENTS ! j))))
                                       (cmd_subst (find_cat example_env (TARGET_DIR []))))))
                                @ [NL] @ SEPARATOR @ [NL])
                              (report_text g'))"
    by blast
  from g t[folded agent_result_def]
  have 1: "\<exists>g. run_gauntlet_sh example_env [] schedule_architect_first = Some g
          \<and> report_text g
              = header_text ''.'' ''Wed Nov  4 10:00:00 UTC 2026''
                @ ''## '' @ AGENT_ICON @ '' Agent: Architect\<newline>''
                @ ''Error: connection refused\<newline>''
                @ ''------------------------------------------------\<newline>''
                @ ''## '' @ AGENT_ICON @ '' Agent: QA Engineer\<newline>''
                @ ''NO ISSUES FOUND\<newline>''
                @ ''------------------------------------------------\<newline>''
                @ ''## '' @ AGENT_ICON @ '' Agent: Librarian\<newline>''
                @ ''Rename f to parse\<newline>''
                @ ''------------------------------------------------\<newline>''
                @ ''## '' @ AGENT_ICON @ '' Agent: Domain Warden\<newline>''
                @ ''No domain violations\<newline>''
                @ ''------------------------------------------------\<newline>''"
    by (simp add: run_gauntlet_sh_def r d n TARGET_DIR_def SEPARATOR_def NL_def)
  from o[folded agent_result_def, rule_format, OF same]
  have 2: "\<exists>g. run_gauntlet_sh others_fail_env [] schedule_architect_first = Some g
          \<and> sublist (''## '' @ AGENT_ICON @ '' Agent: QA Engineer\<newline>''
                      @ ''NO ISSUES FOUND\<newline>''
                      @ ''------------------------------------------------\<newline>'')
               (report_text g)"
    by (simp add: run_gauntlet_sh_def r n TARGET_DIR_def SEPARATOR_def NL_def)
  from 1 2 h x example_schedules(3,4) show ?thesis by blast
qed

section \<open>The form of the report\<close>

text \<open>
  Claim C8, as stated, fails. No line of the report is \<^verbatim>\<open>## Agent: QA Engineer\<close>: the header
  line of a section has the bytes of \<open>AGENT_ICON\<close> between \<^verbatim>\<open>## \<close> and \<^verbatim>\<open> Agent: \<close>. And when two
  jobs append in turns, the header line of one section is followed by the header line of
  the other, not by the output of its agent.
\<close>

theorem report_sections_differ_from_stated_form:
  "spec_section_header ''QA Engineer''
     \<notin> set (report_lines (run_gauntlet_sh example_env [] schedule_in_order))
   \<and> report_lines (run_gauntlet_sh example_env [] schedule_in_order) ! 4
       = ''## '' @ AGENT_ICON @ '' Agent: QA Engineer''
   \<and> report_lines (run_gauntlet_sh example_env [] schedule_interleaved) ! 4
       = ''## '' @ AGENT_ICON @ '' Agent: QA Engineer''
   \<and> report_lines (run_gauntlet_sh example_env [] schedule_interleaved) ! 5
       = ''## '' @ AGENT_ICON @ '' Agent: Architect''"
  by code_simp

text \<open>
  Claim C8, amended. When the jobs append their sections one after the other, and no
  captured output is an option of \<^verbatim>\<open>echo\<close>, the report is the title line, the target line, the
  date line and the separator line, followed by one section per agent in the order of
  completion; a section is the line \<^verbatim>\<open>## \<close>, \<open>AGENT_ICON\<close>, \<^verbatim>\<open> Agent: \<close>, name, then the captured
  output of the agent (its standard output and standard error without the trailing
  newlines) and a newline, then the separator line.
\<close>

theorem report_format:
  assumes "complete_schedule (length agents) sched"
    and "appends_in_turn (length agents) sched order"
    and "list_all (\<lambda>j. \<not> is_echo_option (agent_result env agents args j)) order"
  shows "\<exists>g. run_gauntlet_with env agents args sched = Some g
             \<and> report_text g
                 = ''# Council of Agents Report'' @ [NL]
                   @ ''Target: '' @ TARGET_DIR args @ [NL]
                   @ ''Date: '' @ cmd_subst (date_out env) @ [NL]
                   @ SEPARATOR @ [NL]
                   @ concat (map (\<lambda>j. ''## '' @ AGENT_ICON @ '' Agent: '' @ fst (agents ! j) @ [NL]
                                       @ agent_result env agents args j @ [NL]
                                       @ SEPARATOR @ [NL]) order)"
proof -
  from in_turn_report_text[OF assms(1,2), of env args] obtain g where
    g: "run_gauntlet_with env agents args sched = Some g"
    and t: "report_text g
                 = header_text (TARGET_DIR args) (cmd_subst (date_out env))
                   @ concat (map (\<lambda>j. section_text (fst (agents ! j)) (agent_result env agents args j))
                               order)"
    by blast
  have "map (\<lambda>j. section_text (fst (agents ! j)) (agent_result env agents args j)) order
        = map (\<lambda>j. ''## '' @ AGENT_ICON @ '' Agent: '' @ fst (agents ! j) @ [NL]
                                       @ agent_result env agents args j @ [NL]
                                       @ SEPARATOR @ [NL]) order"
    using assms(3) by (intro map_cong refl) (simp add: list_all_iff section_text_plain)
  with t have "report_text g
                 = ''# Council of Agents Report'' @ [NL]
                   @ ''Target: '' @ TARGET_DIR args @ [NL]
                   @ ''Date: '' @ cmd_subst (date_out env) @ [NL]
                   @ SEPARATOR @ [NL]
                   @ concat (map (\<lambda>j. ''## '' @ AGENT_ICON @ '' Agent: '' @ fst (agents ! j) @ [NL]
                                       @ agent_result env agents args j @ [NL]
                                       @ SEPARATOR @ [NL]) order)"
    by (simp only: header_text_plain append_assoc)
  with g show ?thesis by blast
qed

theorem report_format_witness:
  "complete_schedule (length AGENTS) schedule_in_order
   \<and> appends_in_turn (length AGENTS) schedule_in_order [0, 1, 2, 3]
   \<and> list_all (\<lambda>j. \<not> is_echo_option (agent_result example_env AGENTS [''lib''] j)) [0, 1, 2, 3]
   \<and> (\<exists>g. run_gauntlet_sh example_env [''lib''] schedule_in_order = Some g
          \<and> report_text g
              = ''# Council of Agents Report\<newline>''
                @ ''Target: lib\<newline>''
                @ ''Date: Wed Nov  4 10:00:00 UTC 2026\<newline>''
                @ ''------------------------------------------------\<newline>''
                @ ''## '' @ AGENT_ICON @ '' Agent: QA Engineer\<newline>''
                @ ''NO ISSUES FOUND\<newline>''
                @ ''------------------------------------------------\<newline>''
                @ ''## '' @ AGENT_ICON @ '' Agent: Architect\<newline>''
                @ ''Error: connection refused\<newline>''
                @ ''------------------------------------------------\<newline>''
                @ ''## '' @ AGENT_ICON @ '' Agent: Librarian\<newline>''
                @ ''Rename f to parse\<newline>''
                @ ''------------------------------------------------\<newline>''
                @ ''## '' @ AGENT_ICON @ '' Agent: Domain Warden\<newline>''
                @ ''No domain violations\<newline>''
                @ ''------------------------------------------------\<newline>'')"
proof -
  have r: "agent_result example_env AGENTS [''lib''] 0 = ''NO ISSUES FOUND''"
    "agent_result example_env AGENTS [''lib''] (Suc 0) = ''Error: connection refused''"
    "agent_result example_env AGENTS [''lib''] 2 = ''Rename f to parse''"
    "agent_result example_env AGENTS [''lib''] 3 = ''No domain violations''"
    by code_simp+
  have h: "list_all (\<lambda>j. \<not> is_echo_option (agent_result example_env AGENTS [''lib''] j)) [0, 1, 2, 3]"
    by (simp add: r is_echo_option_def)
  have d: "cmd_subst (date_out example_env) = ''Wed Nov  4 10:00:00 UTC 2026''"
    by (simp add: example_env_def cmd_subst_def NL_def NUL_def)
  have n: "fst (AGENTS ! 0) = ''QA Engineer''" "fst (AGENTS ! Suc 0) = ''Architect''"
    "fst (AGENTS ! 2) = ''Librarian''" "fst (AGENTS ! 3) = ''Domain Warden''"
    by (simp_all add: AGENTS_def)
  from report_format[OF example_schedules(1,2) h]
  obtain g where "run_gauntlet_with example_env AGENTS [''lib''] schedule_in_order = Some g"
    and "report_text g
                 = ''# Council of Agents Report'' @ [NL]
                   @ ''Target: '' @ TARGET_DIR [''lib''] @ [NL]
                   @ ''Date: '' @ cmd_subst (date_out example_env) @ [NL]
                   @ SEPARATOR @ [NL]
                   @ concat (map (\<lambda>j. ''## '' @ AGENT_ICON @ '' Agent: '' @ fst (AGENTS ! j) @ [NL]
                                       @ agent_result example_env AGENTS [''lib''] j @ [NL]
                                       @ SEPARATOR @ [NL]) [0, 1, 2, 3])"
    by blast
  then have "run_gauntlet_sh example_env [''lib''] schedule_in_order = Some g
          \<and> report_text g
              = ''# Council of Agents Report\<newline>''
                @ ''Target: lib\<newline>''
                @ ''Date: Wed Nov  4 10:00:00 UTC 2026\<newline>''
                @ ''------------------------------------------------\<newline>''
                @ ''## '' @ AGENT_ICON @ '' Agent: QA Engineer\<newline>''
                @ ''NO ISSUES FOUND\<newline>''
                @ ''------------------------------------------------\<newline>''
                @ ''## '' @ AGENT_ICON @ '' Agent: Architect\<newline>''
                @ ''Error: connection refused\<newline>''
                @ ''------------------------------------------------\<newline>''
                @ ''## '' @ AGENT_ICON @ '' Agent: Librarian\<newline>''
                @ ''Rename f to parse\<newline>''
                @ ''------------------------------------------------\<newline>''
                @ ''## '' @ AGENT_ICON @ '' Agent: Domain Warden\<newline>''
                @ ''No domain violations\<newline>''
                @ ''------------------------------------------------\<newline>''"
    by (simp add: run_gauntlet_sh_def r d n TARGET_DIR_def SEPARATOR_def NL_def)
  then show ?thesis using example_schedules(1,2) h by blast
qed

section \<open>The driver\<close>

lemma review_outcome:
  assumes "complete_schedule (length AGENTS) sched"
  shows "\<exists>g. run_gauntlet_sh env [''./src''] sched = Some g \<and> target_dir g = ''./src''
           \<and> run_review_sh env claude args sched reply w
               = Some (if declined reply
                       then \<lparr>review_exit = 1, review_gauntlet = g,
                             review_stdout = [bash_echo ''Read the report at COUNCIL_REPORT.md'', bash_echo []],
                             review_fixer = None\<rparr>
                       else if exec_refused env (FIXER_PROMPT (cmd_subst (report_text g)))
                       then \<lparr>review_exit = 126, review_gauntlet = g,
                             review_stdout = [bash_echo ''Read the report at COUNCIL_REPORT.md'', bash_echo []],
                             review_fixer = None\<rparr>
                       else \<lparr>review_exit = fst (ralph_sh claude (FIXER_PROMPT (cmd_subst (report_text g))) w),
                             review_gauntlet = g,
                             review_stdout = [bash_echo ''Read the report at COUNCIL_REPORT.md'', bash_echo []],
                             review_fixer = Some (snd (ralph_sh claude (FIXER_PROMPT (cmd_subst (report_text g))) w))\<rparr>)"
proof -
  from review_ends[OF assms, of env "[''./src'']"] obtain g where
    g: "run_gauntlet_sh env [''./src''] sched = Some g" and t: "target_dir g = TARGET_DIR [''./src'']"
    by blast
  from t have "target_dir g = ''./src''" by (simp add: TARGET_DIR_def)
  with g show ?thesis by (simp add: run_review_sh_def Let_def)
qed

lemma review_exit_cases:
  assumes "complete_schedule (length AGENTS) sched"
  shows "\<exists>r. run_review_sh env claude args sched reply w = Some r
             \<and> target_dir (review_gauntlet r) = ''./src''
             \<and> review_exit r
                 = (if declined reply then 1
                    else if exec_refused env (FIXER_PROMPT (cmd_subst (report_text (review_gauntlet r))))
                    then 126
                    else fst (ralph_sh claude (FIXER_PROMPT (cmd_subst (report_text (review_gauntlet r)))) w))"
proof -
  from review_outcome[OF assms, of env claude args reply w] obtain g where
    t: "target_dir g = ''./src''" and
    r: "run_review_sh env claude args sched reply w
               = Some (if declined reply
                       then \<lparr>review_exit = 1, review_gauntlet = g,
                             review_stdout = [bash_echo ''Read the report at COUNCIL_REPORT.md'', bash_echo []],
                             review_fixer = None\<rparr>
                       else if exec_refused env (FIXER_PROMPT (cmd_subst (report_text g)))
                       then \<lparr>review_exit = 126, review_gauntlet = g,
                             review_stdout = [bash_echo ''Read the report at COUNCIL_REPORT.md'', bash_echo []],
                             review_fixer = None\<rparr>
                       else \<lparr>review_exit = fst (ralph_sh claude (FIXER_PROMPT (cmd_subst (report_text g))) w),
                             review_gauntlet = g,
                             review_stdout = [bash_echo ''Read the report at COUNCIL_REPORT.md'', bash_echo []],
                             review_fixer = Some (snd (ralph_sh claude (FIXER_PROMPT (cmd_subst (report_text g))) w))\<rparr>)"
    by blast
  show ?thesis
  proof (cases "declined reply")
    case True
    with r t show ?thesis by simp
  next
    case False
    note d = this
    show ?thesis
    proof (cases "exec_refused env (FIXER_PROMPT (cmd_subst (report_text g)))")
      case True
      with r t d show ?thesis by simp
    next
      case False
      with r t d show ?thesis by simp
    qed
  qed
qed

lemma review_gauntlet_run:
  assumes "run_review_sh env claude args sched reply w = Some r"
  shows "run_gauntlet_sh env [''./src''] sched = Some (review_gauntlet r)"
  using assms by (auto simp: run_review_sh_def Let_def split: option.splits if_splits)

lemma example_report_length:
  "map_option (\<lambda>g. length (FIXER_PROMPT (cmd_subst (report_text g))))
     (run_gauntlet_sh example_env [''./src''] schedule_in_order) = Some 1099"
  "map_option (\<lambda>g. length (FIXER_PROMPT (cmd_subst (report_text g))))
     (run_gauntlet_sh small_limit_env [''./src''] schedule_in_order) = Some 1099"
  by code_simp+

text \<open>
  Claim C6, as stated, fails: when the user answers \<^verbatim>\<open>n\<close> at the confirmation, the driver
  ends with exit status 1, not 0.
\<close>

theorem declining_exits_with_status_one:
  "declined ''n''
   \<and> map_option review_exit (run_review_sh example_env (stub_engine 1) [] schedule_in_order ''n'' 0)
       = Some 1"
  by code_simp

text \<open>
  Claim C6, amended. In every run in which the review ends, the exit status of the driver
  is 1 when the user declines the fixer (any reply other than \<^verbatim>\<open>y\<close> or \<^verbatim>\<open>Y\<close>). When the user
  accepts, it is 126 if the system refuses to execute the fixer script with the prompt as
  its argument (the prompt holds the whole report; Linux refuses an argument of 131072
  bytes or more), and the fixer loop does not run; otherwise it is 0 if the fixer loop
  converges, that is if the output of one of its iterations \<open>1 .. MAX_ITERATIONS\<close>, as the
  loop captures it, contains the completion marker, and 1 if the iteration budget is used
  up without it.
\<close>

theorem driver_exit_status:
  assumes "complete_schedule (length AGENTS) sched"
  shows "\<exists>r. run_review_sh env claude args sched reply w = Some r
             \<and> review_exit r
                 = (if declined reply then 1
                    else if exec_refused env (FIXER_PROMPT (cmd_subst (report_text (review_gauntlet r))))
                    then 126
                    else if \<exists>k. 1 \<le> k \<and> k \<le> MAX_ITERATIONS
                                \<and> sublist COMPLETION_MARKER
                                     (captured_at claude
                                        (FIXER_PROMPT (cmd_subst (report_text (review_gauntlet r)))) w k)
                         then 0 else 1)"
proof -
  from review_exit_cases[OF assms, of env claude args reply w] obtain r where
    r: "run_review_sh env claude args sched reply w = Some r"
    and e: "review_exit r
                 = (if declined reply then 1
                    else if exec_refused env (FIXER_PROMPT (cmd_subst (report_text (review_gauntlet r))))
                    then 126
                    else fst (ralph_sh claude (FIXER_PROMPT (cmd_subst (report_text (review_gauntlet r)))) w))"
    by blast
  from e have "review_exit r
                 = (if declined reply then 1
                    else if exec_refused env (FIXER_PROMPT (cmd_subst (report_text (review_gauntlet r))))
                    then 126
                    else if \<exists>k. 1 \<le> k \<and> k \<le> MAX_ITERATIONS
                                \<and> sublist COMPLETION_MARKER
                                     (captured_at claude
                                        (FIXER_PROMPT (cmd_subst (report_text (review_gauntlet r)))) w k)
                         then 0 else 1)"
    by (simp only: ralph_sh_def ralph_with_exit)
  with r show ?thesis by blast
qed

theorem driver_exit_status_witness:
  "complete_schedule (length AGENTS) schedule_in_order
   \<and> map_option review_exit (run_review_sh example_env (stub_engine 2) [] schedule_in_order ''y'' 0) = Some 0
   \<and> map_option review_exit (run_review_sh example_env (stub_engine 0) [] schedule_in_order ''y'' 0) = Some 1
   \<and> map_option review_exit (run_review_sh example_env (stub_engine 2) [] schedule_in_order ''q'' 0) = Some 1
   \<and> map_option review_exit (run_review_sh small_limit_env (stub_engine 2) [] schedule_in_order ''y'' 0)
       = Some 126"
proof -
  have d: "\<not> declined ''y''" "declined ''q''" by (simp_all add: declined_def)
  have m: "2 \<le> MAX_ITERATIONS" by (simp add: MAX_ITERATIONS_def)
  have yes: "\<exists>k. 1 \<le> k \<and> k \<le> MAX_ITERATIONS \<and> sublist COMPLETION_MARKER (captured_at (stub_engine 2) p 0 k)" for p
    using m by (intro exI[of _ 2]) (simp add: captured_at_stub stub_texts)
  have no: "\<not> (\<exists>k. 1 \<le> k \<and> k \<le> MAX_ITERATIONS \<and> sublist COMPLETION_MARKER (captured_at (stub_engine 0) p 0 k))" for p
    by (simp add: captured_at_stub stub_texts)
  have fits: "\<not> exec_refused example_env (FIXER_PROMPT (cmd_subst (report_text (review_gauntlet r))))"
    if "run_review_sh example_env claude args schedule_in_order reply w = Some r" for claude args reply w r
    using review_gauntlet_run[OF that] example_report_length(1)
    by (simp add: example_env_def linux_exec_refused_def MAX_ARG_STRLEN_def)
  have large: "exec_refused small_limit_env (FIXER_PROMPT (cmd_subst (report_text (review_gauntlet r))))"
    if "run_review_sh small_limit_env claude args schedule_in_order reply w = Some r" for claude args reply w r
    using review_gauntlet_run[OF that] example_report_length(2)
    by (simp add: small_limit_env_def)
  from driver_exit_status[OF example_schedules(1), of example_env "stub_engine 2" "[]" "''y''" 0]
  obtain r1 where r1: "run_review_sh example_env (stub_engine 2) [] schedule_in_order ''y'' 0 = Some r1"
    and "review_exit r1
           = (if declined ''y'' then 1
              else if exec_refused example_env (FIXER_PROMPT (cmd_subst (report_text (review_gauntlet r1))))
              then 126
              else if \<exists>k. 1 \<le> k \<and> k \<le> MAX_ITERATIONS
                          \<and> sublist COMPLETION_MARKER
                               (captured_at (stub_engine 2)
                                  (FIXER_PROMPT (cmd_subst (report_text (review_gauntlet r1)))) 0 k)
                   then 0 else 1)"
    by blast
  with d(1) yes fits[OF r1] have "review_exit r1 = 0" by simp
  with r1 have 1: "map_option review_exit (run_review_sh example_env (stub_engine 2) [] schedule_in_order ''y'' 0) = Some 0"
    by simp
  from driver_exit_status[OF example_schedules(1), of example_env "stub_engine 0" "[]" "''y''" 0]
  obtain r2 where r2: "run_review_sh example_env (stub_engine 0) [] schedule_in_order ''y'' 0 = Some r2"
    and "review_exit r2
           = (if declined ''y'' then 1
              else if exec_refused example_env (FIXER_PROMPT (cmd_subst (report_text (review_gauntlet r2))))
              then 126
              else if \<exists>k. 1 \<le> k \<and> k \<le> MAX_ITERATIONS
                          \<and> sublist COMPLETION_MARKER
                               (captured_at (stub_engine 0)
                                  (FIXER_PROMPT (cmd_subst (report_text (review_gauntlet r2)))) 0 k)
                   then 0 else 1)"
    by blast
  with d(1) no fits[OF r2] have "review_exit r2 = 1" by simp
  with r2 have 2: "map_option review_exit (run_review_sh example_env (stub_engine 0) [] schedule_in_order ''y'' 0) = Some 1"
    by simp
  from driver_exit_status[OF example_schedules(1), of example_env "stub_engine 2" "[]" "''q''" 0]
  have 3: "map_option review_exit (run_review_sh example_env (stub_engine 2) [] schedule_in_order ''q'' 0) = Some 1"
    using d(2) by auto
  from driver_exit_status[OF example_schedules(1), of small_limit_env "stub_engine 2" "[]" "''y''" 0]
  obtain r4 where r4: "run_review_sh small_limit_env (stub_engine 2) [] schedule_in_order ''y'' 0 = Some r4"
    and "review_exit r4
           = (if declined ''y'' then 1
              else if exec_refused small_limit_env (FIXER_PROMPT (cmd_subst (report_text (review_gauntlet r4))))
              then 126
              else if \<exists>k. 1 \<le> k \<and> k \<le> MAX_ITERATIONS
                          \<and> sublist COMPLETION_MARKER
                               (captured_at (stub_engine 2)
                                  (FIXER_PROMPT (cmd_subst (report_text (review_gauntlet r4)))) 0 k)
                   then 0 else 1)"
    by blast
  with d(1) large[OF r4] have "review_exit r4 = 126" by simp
  with r4 have 4: "map_option review_exit (run_review_sh small_limit_env (stub_engine 2) [] schedule_in_order ''y'' 0) = Some 126"
    by simp
  from 1 2 3 4 example_schedules(1) show ?thesis by blast
qed

text \<open>
  Claim C7, as stated, fails: called with the target \<^verbatim>\<open>/srv/app\<close> the driver runs the review
  against \<^verbatim>\<open>./src\<close>, and called without an argument it runs the review against \<^verbatim>\<open>./src\<close> too,
  not against the current directory.
\<close>

theorem driver_ignores_its_target_argument:
  "map_option (target_dir \<circ> review_gauntlet)
     (run_review_sh example_env (stub_engine 1) [''/srv/app''] schedule_in_order ''n'' 0)
     = Some ''./src''
   \<and> map_option (target_dir \<circ> review_gauntlet)
     (run_review_sh example_env (stub_engine 1) [] schedule_in_order ''n'' 0)
     = Some ''./src''"
  by code_simp

text \<open>
  Claim C7, amended. The driver does not look at its arguments: whatever they are, it runs
  the review against \<^verbatim>\<open>./src\<close>. It is the review script that takes a target directory as its
  first argument, with the current directory as the default when the argument is missing
  or empty.
\<close>

theorem driver_reviews_src:
  assumes "complete_schedule (length AGENTS) sched"
  shows "run_review_sh env claude args sched reply w = run_review_sh env claude [] sched reply w
         \<and> (\<exists>r. run_review_sh env claude args sched reply w = Some r
                \<and> target_dir (review_gauntlet r) = ''./src'')
         \<and> (\<exists>g. run_gauntlet_sh env [] sched = Some g \<and> target_dir g = ''.'')
         \<and> (\<exists>g. run_gauntlet_sh env (d # rest) sched = Some g
                \<and> target_dir g = (if d = [] then ''.'' else d))"
proof -
  have 1: "run_review_sh env claude args sched reply w = run_review_sh env claude [] sched reply w"
    by (simp add: run_review_sh_def)
  from review_exit_cases[OF assms, of env claude args reply w]
  have 2: "\<exists>r. run_review_sh env claude args sched reply w = Some r
                \<and> target_dir (review_gauntlet r) = ''./src''"
    by blast
  from review_ends[OF assms, of env "[]"]
  have 3: "\<exists>g. run_gauntlet_sh env [] sched = Some g \<and> target_dir g = ''.''"
    by (simp add: TARGET_DIR_def)
  from review_ends[OF assms, of env "d # rest"]
  have 4: "\<exists>g. run_gauntlet_sh env (d # rest) sched = Some g
                \<and> target_dir g = (if d = [] then ''.'' else d)"
    by (simp add: TARGET_DIR_def)
  from 1 2 3 4 show ?thesis by blast
qed

theorem driver_reviews_src_witness:
  "complete_schedule (length AGENTS) schedule_in_order
   \<and> (\<exists>r. run_review_sh example_env (stub_engine 1) [''/srv/app''] schedule_in_order ''y'' 0 = Some r
          \<and> target_dir (review_gauntlet r) = ''./src'')
   \<and> (\<exists>g. run_gauntlet_sh example_env [''/srv/app''] schedule_in_order = Some g
          \<and> target_dir g = ''/srv/app'')"
proof -
  note t = driver_reviews_src[OF example_schedules(1), of example_env "stub_engine 1"
             "[''/srv/app'']" "''y''" 0 "''/srv/app''" "[]"]
  from t have a: "\<exists>r. run_review_sh example_env (stub_engine 1) [''/srv/app''] schedule_in_order ''y'' 0 = Some r
          \<and> target_dir (review_gauntlet r) = ''./src''"
    by blast
  from t have "\<exists>g. run_gauntlet_sh example_env [''/srv/app''] schedule_in_order = Some g
          \<and> target_dir g = (if ''/srv/app'' = [] then ''.'' else ''/srv/app'')"
    by blast
  then have b: "\<exists>g. run_gauntlet_sh example_env [''/srv/app''] schedule_in_order = Some g
          \<and> target_dir g = ''/srv/app''"
    by simp
  from a b example_schedules(1) show ?thesis by blast
qed

text \<open>
  Claim C9. The fixer prompt ends with \<^verbatim>\<open>output exactly: \<close>, the completion marker that the
  loop searches for, character for character, and a full stop; and when the engine, given
  that prompt, writes the marker at one of the iterations \<open>1 .. MAX_ITERATIONS\<close>, the loop
  ends as \<open>Completed\<close> with exit status 0.
\<close>

theorem fixer_prompt_names_the_marker:
  "suffix (''output exactly: '' @ COMPLETION_MARKER @ ''.'') (FIXER_PROMPT report_content)
   \<and> (1 \<le> k \<and> k \<le> MAX_ITERATIONS
        \<and> sublist COMPLETION_MARKER (output_at claude (FIXER_PROMPT report_content) w k)
       \<longrightarrow> fst (ralph_sh claude (FIXER_PROMPT report_content) w) = 0
           \<and> status_of_exit (fst (ralph_sh claude (FIXER_PROMPT report_content) w)) = Completed)"
proof -
  have "suffix (''output exactly: '' @ COMPLETION_MARKER @ ''.'') (FIXER_PROMPT report_content)"
    unfolding FIXER_PROMPT_def COMPLETION_MARKER_def suffix_def by simp
  moreover have "fst (ralph_sh claude (FIXER_PROMPT report_content) w) = 0
           \<and> status_of_exit (fst (ralph_sh claude (FIXER_PROMPT report_content) w)) = Completed"
    if h: "1 \<le> k \<and> k \<le> MAX_ITERATIONS
        \<and> sublist COMPLETION_MARKER (output_at claude (FIXER_PROMPT report_content) w k)"
  proof -
    from h have "sublist COMPLETION_MARKER (captured_at claude (FIXER_PROMPT report_content) w k)"
      unfolding captured_at_def by (intro cmd_subst_keeps_marker[OF marker_facts(1,2,5)]) simp
    with h have "\<exists>k. 1 \<le> k \<and> k \<le> MAX_ITERATIONS
        \<and> sublist COMPLETION_MARKER (captured_at claude (FIXER_PROMPT report_content) w k)"
      by blast
    then show ?thesis
      using ralph_with_exit[of claude MAX_ITERATIONS "FIXER_PROMPT report_content" w]
      by (simp add: ralph_sh_def status_of_exit_def)
  qed
  ultimately show ?thesis by blast
qed

lemma world_after_obedient: "world_after (obedient_engine k) p w n = w + n"
  by (induction n) (simp_all add: obedient_engine_def)

theorem fixer_prompt_names_the_marker_witness:
  "(1::nat) \<le> 4 \<and> 4 \<le> MAX_ITERATIONS
   \<and> output_at (obedient_engine 4) (FIXER_PROMPT ''report'') 0 4 = ''<promise>COMPLETE</promise>''
   \<and> fst (ralph_sh (obedient_engine 4) (FIXER_PROMPT ''report'') 0) = 0
   \<and> suffix ''output exactly: <promise>COMPLETE</promise>.'' (FIXER_PROMPT ''report'')"
proof -
  have m: "4 \<le> MAX_ITERATIONS" by (simp add: MAX_ITERATIONS_def)
  have o: "output_at (obedient_engine 4) (FIXER_PROMPT ''report'') 0 4 = ''<promise>COMPLETE</promise>''"
    by (simp add: output_at_def world_after_obedient obedient_engine_def)
  then have s: "sublist COMPLETION_MARKER (output_at (obedient_engine 4) (FIXER_PROMPT ''report'') 0 4)"
    by (simp add: COMPLETION_MARKER_def)
  from fixer_prompt_names_the_marker[of "''report''" 4 "obedient_engine 4" 0] m o s
  show ?thesis by (simp add: COMPLETION_MARKER_def)
qed

section \<open>Properties of create_council_zip\<close>

lemma strip_on_files:
  "strip CONTENT_01_TEST_QA = CONTENT_01_TEST_QA"
  "strip CONTENT_02_STRUCTURE_ARCHITECT = CONTENT_02_STRUCTURE_ARCHITECT"
  "strip CONTENT_03_NAMING_LIBRARIAN = CONTENT_03_NAMING_LIBRARIAN"
  "strip CONTENT_04_DOMAIN_WARDEN = CONTENT_04_DOMAIN_WARDEN"
  "strip CONTENT_RALPH_SH = CONTENT_RALPH_SH"
  "strip CONTENT_RUN_GAUNTLET_SH @ '' '' = CONTENT_RUN_GAUNTLET_SH"
  "strip CONTENT_RUN_REVIEW_SH @ '' '' = CONTENT_RUN_REVIEW_SH"
  by code_simp+

lemma files_paths:
  "map fst files =
     [''.council/prompts/01_test_qa.md'', ''.council/prompts/02_structure_architect.md'',
      ''.council/prompts/03_naming_librarian.md'', ''.council/prompts/04_domain_warden.md'',
      ''.council/scripts/ralph.sh'', ''.council/scripts/run_gauntlet.sh'', ''run_review.sh'']"
  by (simp add: files_def)

lemma files_paths_facts:
  "list_all (\<lambda>p. (dirname p = [] \<or> dirname p = ''.council/prompts'' \<or> dirname p = ''.council/scripts'')
                  \<and> p \<notin> set council_dirs \<and> p \<noteq> ZIP_NAME \<and> normal_relative p)
     [''.council/prompts/01_test_qa.md'', ''.council/prompts/02_structure_architect.md'',
      ''.council/prompts/03_naming_librarian.md'', ''.council/prompts/04_domain_warden.md'',
      ''.council/scripts/ralph.sh'', ''.council/scripts/run_gauntlet.sh'', ''run_review.sh'']"
  "ZIP_NAME \<notin> set council_dirs" "dirname ZIP_NAME = []"
  by code_simp+

lemma files_distinct: "distinct (map fst files)"
  unfolding files_paths by simp

lemma only_new_dirs_refl: "only_new_dirs fs fs"
  by (simp add: only_new_dirs_def)

lemma only_new_dirs_trans:
  assumes "only_new_dirs fs fs1" and "only_new_dirs fs1 fs2"
  shows "only_new_dirs fs fs2"
  unfolding only_new_dirs_def
proof
  fix p
  from assms(1) have 1: "fs1 p = fs p \<or> (fs p = None \<and> fs1 p = Some Dir)"
    by (simp add: only_new_dirs_def)
  from assms(2) have 2: "fs2 p = fs1 p \<or> (fs1 p = None \<and> fs2 p = Some Dir)"
    by (simp add: only_new_dirs_def)
  from 1 2 show "fs2 p = fs p \<or> (fs p = None \<and> fs2 p = Some Dir)" by auto
qed

lemma mkdir_effect: "only_new_dirs fs (state_of (mkdir env fs name))"
  by (simp add: mkdir_def state_of_def only_new_dirs_def split: option.splits)

lemma mkdir_exist_ok_effect: "only_new_dirs fs (state_of (mkdir_exist_ok env fs name ok))"
proof (cases "mkdir env fs name")
  case (Inl a)
  obtain e fs1 where a: "a = (e, fs1)" by (cases a)
  with Inl mkdir_effect[of fs env name] have "only_new_dirs fs fs1" by (simp add: state_of_def)
  with Inl a show ?thesis by (simp add: mkdir_exist_ok_def state_of_def)
next
  case (Inr fs1)
  with mkdir_effect[of fs env name] have "only_new_dirs fs fs1" by (simp add: state_of_def)
  with Inr show ?thesis by (simp add: mkdir_exist_ok_def state_of_def)
qed

lemma makedirs_effect: "only_new_dirs fs (state_of (makedirs env fs name ok))"
proof (induction env fs name ok rule: makedirs.induct)
  case (1 env fs name exist_ok)
  let ?head = "fst (makedirs_split name)"
  let ?tail = "snd (makedirs_split name)"
  show ?case
  proof (cases "?head \<noteq> [] \<and> ?tail \<noteq> [] \<and> \<not> path_exists fs ?head")
    case False
    have "makedirs env fs name exist_ok = mkdir_exist_ok env fs name exist_ok"
      by (subst makedirs.simps) (rule if_not_P[OF False])
    then show ?thesis by (simp only: mkdir_exist_ok_effect)
  next
    case True
    from 1[OF True] have ih: "only_new_dirs fs (state_of (makedirs env fs ?head exist_ok))" .
    have step: "only_new_dirs fs (state_of (if ?tail = ''.'' then Inr fs1
                   else mkdir_exist_ok env fs1 name exist_ok))"
      if "only_new_dirs fs fs1" for fs1
    proof (cases "?tail = ''.''")
      case True
      with that show ?thesis by (simp add: state_of_def)
    next
      case False
      with only_new_dirs_trans[OF that mkdir_exist_ok_effect[of fs1 env name exist_ok]]
      show ?thesis by simp
    qed
    show ?thesis
    proof (cases "makedirs env fs ?head exist_ok")
      case (Inl a)
      obtain e fs1 where a: "a = (e, fs1)" by (cases a)
      from ih Inl a have o: "only_new_dirs fs fs1" by (simp add: state_of_def)
      have "makedirs env fs name exist_ok
            = (if e = FileExistsError
               then (if ?tail = ''.'' then Inr fs1 else mkdir_exist_ok env fs1 name exist_ok)
               else Inl (e, fs1))"
        using True Inl a by (subst makedirs.simps) simp
      with step[OF o] o show ?thesis by (simp add: state_of_def)
    next
      case (Inr fs1)
      from ih Inr have o: "only_new_dirs fs fs1" by (simp add: state_of_def)
      have "makedirs env fs name exist_ok
            = (if ?tail = ''.'' then Inr fs1 else mkdir_exist_ok env fs1 name exist_ok)"
        using True Inr by (subst makedirs.simps) simp
      with step[OF o] show ?thesis by simp
    qed
  qed
qed

lemma open_w_Inr:
  assumes "open_w env fs path blank = Inr fs'"
  shows "fs path \<noteq> Some Dir" and "dirname path \<noteq> [] \<Longrightarrow> fs (dirname path) = Some Dir"
    and "\<exists>m. fs' = fs(path \<mapsto> File blank m)"
  using assms
  by (auto simp add: open_w_def parent_error_def split: option.splits node.splits if_splits)

lemma write_text_Inr:
  assumes "write_text env fs path content = Inr fs'"
  shows "\<exists>m. fs' = fs(path \<mapsto> File (Text content) m)"
  using assms by (auto simp add: write_text_def split: option.splits node.splits)

lemma chmod_Inr:
  assumes "chmod env fs path mode = Inr fs'" and "fs path = Some (File d m)"
  shows "fs' = fs(path \<mapsto> File d mode)"
  using assms by (auto simp add: chmod_def split: option.splits)

lemma zip_member_Inr:
  assumes "zip_member env fs path = Inr member" and "fs path = Some (File d m)"
  shows "member = (path, d)"
  using assms by (auto simp add: zip_member_def split: option.splits)

lemma py_print_Inr:
  assumes "py_print env s st = Inr st'"
  shows "py_fs st' = py_fs st" and "py_zipf st' = py_zipf st"
  using assms by (auto simp add: py_print_def split: option.splits)

text \<open>The steps of one turn of the loop that ends without an exception.\<close>

lemma add_file_steps:
  assumes "add_file env item st = Inr st'"
  shows "\<exists>fs1 fs2 fs3 fs4 member.
           (if dirname (fst item) \<noteq> [] then makedirs env (py_fs st) (dirname (fst item)) True
            else Inr (py_fs st)) = Inr fs1
           \<and> open_w env fs1 (fst item) (Text []) = Inr fs2
           \<and> write_text env fs2 (fst item) (strip (snd item)) = Inr fs3
           \<and> (if endswith (fst item) ''.sh'' then chmod env fs3 (fst item) (7 * 64 + 5 * 8 + 5)
               else Inr fs3) = Inr fs4
           \<and> zip_member env fs4 (fst item) = Inr member
           \<and> py_print env (''  + Added '' @ fst item)
                (st\<lparr>py_fs := fs4, py_zipf := py_zipf st @ [member]\<rparr>) = Inr st'"
  using assms unfolding add_file_def Let_def
  by (auto split: sum.splits prod.splits if_splits)

lemma add_file_Inr:
  assumes "add_file env item st = Inr st'"
  shows "\<exists>m. py_fs st' (fst item) = Some (File (Text (strip (snd item))) m)"
    and "py_zipf st' = py_zipf st @ [(fst item, Text (strip (snd item)))]"
    and "dirname (fst item) \<noteq> [] \<Longrightarrow> py_fs st' (dirname (fst item)) = Some Dir"
    and "q \<noteq> fst item \<Longrightarrow> py_fs st' q = py_fs st q \<or> (py_fs st q = None \<and> py_fs st' q = Some Dir)"
proof -
  let ?p = "fst item"
  let ?c = "strip (snd item)"
  from add_file_steps[OF assms] obtain fs1 fs2 fs3 fs4 member where
    mk: "(if dirname ?p \<noteq> [] then makedirs env (py_fs st) (dirname ?p) True
            else Inr (py_fs st)) = Inr fs1"
    and op: "open_w env fs1 ?p (Text []) = Inr fs2"
    and wr: "write_text env fs2 ?p ?c = Inr fs3"
    and ch: "(if endswith ?p ''.sh'' then chmod env fs3 ?p (7 * 64 + 5 * 8 + 5)
               else Inr fs3) = Inr fs4"
    and zm: "zip_member env fs4 ?p = Inr member"
    and pr: "py_print env (''  + Added '' @ ?p)
                (st\<lparr>py_fs := fs4, py_zipf := py_zipf st @ [member]\<rparr>) = Inr st'"
    by blast
  have n1: "only_new_dirs (py_fs st) fs1"
  proof (cases "dirname ?p \<noteq> []")
    case True
    with mk makedirs_effect[of "py_fs st" env "dirname ?p" True] show ?thesis
      by (simp add: state_of_def)
  next
    case False
    with mk show ?thesis by (simp add: only_new_dirs_refl)
  qed
  from open_w_Inr(3)[OF op] obtain m2 where f2: "fs2 = fs1(?p \<mapsto> File (Text []) m2)" by blast
  from write_text_Inr[OF wr] obtain m3 where f3: "fs3 = fs2(?p \<mapsto> File (Text ?c) m3)" by blast
  have "\<exists>m4. fs4 = fs3(?p \<mapsto> File (Text ?c) m4)"
  proof (cases "endswith ?p ''.sh''")
    case True
    with ch have "chmod env fs3 ?p (7 * 64 + 5 * 8 + 5) = Inr fs4" by simp
    from chmod_Inr[OF this, of "Text ?c" m3] f3 show ?thesis by auto
  next
    case False
    with ch f3 show ?thesis by auto
  qed
  then obtain m4 where f4: "fs4 = fs3(?p \<mapsto> File (Text ?c) m4)" by blast
  then have at: "fs4 ?p = Some (File (Text ?c) m4)" by simp
  from zip_member_Inr[OF zm at] have mem: "member = (?p, Text ?c)" .
  from py_print_Inr[OF pr] have s: "py_fs st' = fs4" "py_zipf st' = py_zipf st @ [member]"
    by simp_all
  from s at show "\<exists>m. py_fs st' ?p = Some (File (Text ?c) m)" by simp
  from s mem show "py_zipf st' = py_zipf st @ [(?p, Text ?c)]" by simp
  have other: "fs4 q = fs1 q" if "q \<noteq> ?p" for q
    using that by (simp add: f4 f3 f2)
  show "py_fs st' (dirname ?p) = Some Dir" if d: "dirname ?p \<noteq> []"
  proof -
    from open_w_Inr(2)[OF op d] have 1: "fs1 (dirname ?p) = Some Dir" .
    from open_w_Inr(1)[OF op] 1 have "dirname ?p \<noteq> ?p" by auto
    from other[OF this] 1 s show ?thesis by simp
  qed
  show "py_fs st' q = py_fs st q \<or> (py_fs st q = None \<and> py_fs st' q = Some Dir)"
    if q: "q \<noteq> ?p"
  proof -
    from n1 have "fs1 q = py_fs st q \<or> (py_fs st q = None \<and> fs1 q = Some Dir)"
      by (simp add: only_new_dirs_def)
    with other[OF q] s show ?thesis by simp
  qed
qed

lemma add_file_keeps_dirs:
  assumes "add_file env item st = Inr st'" and "py_fs st q = Some Dir"
  shows "py_fs st' q = Some Dir"
proof (cases "q = fst item")
  case False
  from add_file_Inr(4)[OF assms(1) False] assms(2) show ?thesis by auto
next
  case True
  let ?p = "fst item"
  from add_file_steps[OF assms(1)] obtain fs1 fs2 where
    mk: "(if dirname ?p \<noteq> [] then makedirs env (py_fs st) (dirname ?p) True
            else Inr (py_fs st)) = Inr fs1"
    and op: "open_w env fs1 ?p (Text []) = Inr fs2"
    by blast
  have "only_new_dirs (py_fs st) fs1"
  proof (cases "dirname ?p \<noteq> []")
    case True
    with mk makedirs_effect[of "py_fs st" env "dirname ?p" True] show ?thesis
      by (simp add: state_of_def)
  next
    case False
    with mk show ?thesis by (simp add: only_new_dirs_refl)
  qed
  then have "fs1 ?p = py_fs st ?p \<or> (py_fs st ?p = None \<and> fs1 ?p = Some Dir)"
    by (simp add: only_new_dirs_def)
  with assms(2) True have "fs1 ?p = Some Dir" by auto
  with open_w_Inr(1)[OF op] show ?thesis by simp
qed

lemma add_files_Inr:
  assumes "add_files env items st = Inr st'" and "distinct (map fst items)"
  shows "py_zipf st' = py_zipf st @ map (\<lambda>e. (fst e, Text (strip (snd e)))) items
         \<and> (\<forall>e \<in> set items. \<exists>m. py_fs st' (fst e) = Some (File (Text (strip (snd e))) m))
         \<and> (\<forall>e \<in> set items. dirname (fst e) \<noteq> [] \<longrightarrow> py_fs st' (dirname (fst e)) = Some Dir)
         \<and> (\<forall>q. q \<notin> set (map fst items)
                \<longrightarrow> py_fs st' q = py_fs st q \<or> (py_fs st q = None \<and> py_fs st' q = Some Dir))
         \<and> (\<forall>q. py_fs st q = Some Dir \<longrightarrow> py_fs st' q = Some Dir)"
  using assms
proof (induction items arbitrary: st)
  case Nil
  then show ?case by simp
next
  case (Cons e items)
  from Cons.prems(1) obtain st1 where
    s1: "add_file env e st = Inr st1" and r: "add_files env items st1 = Inr st'"
    by (auto split: sum.splits)
  from Cons.prems(2) have pr: "fst e \<notin> set (map fst items)" and dist: "distinct (map fst items)"
    by simp_all
  note a = add_file_Inr[OF s1] and k = add_file_keeps_dirs[OF s1]
  from Cons.IH[OF r dist] have
    rz: "py_zipf st' = py_zipf st1 @ map (\<lambda>e. (fst e, Text (strip (snd e)))) items"
    and rf: "\<forall>x \<in> set items. \<exists>m. py_fs st' (fst x) = Some (File (Text (strip (snd x))) m)"
    and rd: "\<forall>x \<in> set items. dirname (fst x) \<noteq> [] \<longrightarrow> py_fs st' (dirname (fst x)) = Some Dir"
    and rk: "\<forall>q. q \<notin> set (map fst items)
                \<longrightarrow> py_fs st' q = py_fs st1 q \<or> (py_fs st1 q = None \<and> py_fs st' q = Some Dir)"
    and rr: "\<forall>q. py_fs st1 q = Some Dir \<longrightarrow> py_fs st' q = Some Dir"
    by blast+
  have 1: "py_zipf st' = py_zipf st @ map (\<lambda>e. (fst e, Text (strip (snd e)))) (e # items)"
    using rz a(2) by simp
  from a(1) obtain m where "py_fs st1 (fst e) = Some (File (Text (strip (snd e))) m)" by blast
  with rk pr have pw: "py_fs st' (fst e) = Some (File (Text (strip (snd e))) m)" by auto
  have 2: "\<forall>x \<in> set (e # items). \<exists>m. py_fs st' (fst x) = Some (File (Text (strip (snd x))) m)"
    using rf pw by auto
  have 3: "\<forall>x \<in> set (e # items). dirname (fst x) \<noteq> [] \<longrightarrow> py_fs st' (dirname (fst x)) = Some Dir"
    using rd a(3) rr by auto
  have 4: "\<forall>q. q \<notin> set (map fst (e # items))
                \<longrightarrow> py_fs st' q = py_fs st q \<or> (py_fs st q = None \<and> py_fs st' q = Some Dir)"
  proof (intro allI impI)
    fix q assume q: "q \<notin> set (map fst (e # items))"
    then have q1: "q \<noteq> fst e" and q2: "q \<notin> set (map fst items)" by simp_all
    from a(4)[OF q1] have x: "py_fs st1 q = py_fs st q \<or> (py_fs st q = None \<and> py_fs st1 q = Some Dir)" .
    from rk q2 have y: "py_fs st' q = py_fs st1 q \<or> (py_fs st1 q = None \<and> py_fs st' q = Some Dir)"
      by blast
    from rr have z: "py_fs st1 q = Some Dir \<Longrightarrow> py_fs st' q = Some Dir" by blast
    from x y z show "py_fs st' q = py_fs st q \<or> (py_fs st q = None \<and> py_fs st' q = Some Dir)"
      by auto
  qed
  have 5: "\<forall>q. py_fs st q = Some Dir \<longrightarrow> py_fs st' q = Some Dir"
    using k rr by blast
  from 1 2 3 4 5 show ?case by (intro conjI)
qed

text \<open>The steps of a call of the function that returns.\<close>

lemma create_council_zip_steps:
  assumes "create_council_zip env fs0 = Inr st"
  shows "\<exists>st0 fs1 st1 st2.
           py_print env ''Creating Council of Agents...''
             \<lparr>py_fs = fs0, py_zipf = [], py_stdout = []\<rparr> = Inr st0
           \<and> open_w env fs0 ZIP_NAME (Zip []) = Inr fs1
           \<and> add_files env files (st0\<lparr>py_fs := fs1\<rparr>) = Inr st1
           \<and> zip_close env st1 = Inr st2
           \<and> py_print env MSG_SUCCESS st2 = Inr st"
  using assms unfolding create_council_zip_def
  by (auto split: sum.splits prod.splits)

lemma zip_close_Inr:
  assumes "zip_close env st = Inr st'"
  shows "\<exists>m. py_fs st' = (py_fs st)(ZIP_NAME \<mapsto> File (Zip (py_zipf st)) m)"
  using assms by (auto simp add: zip_close_def split: option.splits)

lemma council_splits:
  "makedirs_split ''.council/prompts'' = (''.council'', ''prompts'')"
  "makedirs_split ''.council/scripts'' = (''.council'', ''scripts'')"
  "makedirs_split ''.council'' = ([], ''.council'')"
  "dirname ''.council/prompts'' = ''.council''"
  "dirname ''.council/scripts'' = ''.council''"
  "dirname ''.council'' = []"
  by code_simp+

lemma makedirs_council:
  assumes w: "\<And>call fs. refused env call fs = None"
    and c: "dir_ok fs ''.council''"
  shows "makedirs env fs ''.council'' True = Inr (fs(''.council'' \<mapsto> Dir))"
  using c
  by (subst makedirs.simps)
     (auto simp add: w council_splits mkdir_exist_ok_def mkdir_def parent_error_def isdir_def
        dir_ok_def fun_upd_idem)

lemma makedirs_sub:
  assumes w: "\<And>call fs. refused env call fs = None"
    and s: "sub = ''.council/prompts'' \<or> sub = ''.council/scripts''"
    and c: "dir_ok fs ''.council''" and d: "dir_ok fs sub"
  shows "makedirs env fs sub True = Inr (fs(''.council'' \<mapsto> Dir, sub \<mapsto> Dir))"
proof -
  from s have sp: "makedirs_split sub = (''.council'', drop 9 sub)" and dn: "dirname sub = ''.council''"
    and ne: "sub \<noteq> ''.council''" and t: "drop 9 sub \<noteq> []" "drop 9 sub \<noteq> ''.''"
    by (auto simp add: council_splits)
  let ?fs1 = "fs(''.council'' \<mapsto> Dir)"
  have m: "mkdir_exist_ok env ?fs1 sub True = Inr (?fs1(sub \<mapsto> Dir))"
    using d ne by (auto simp add: w mkdir_exist_ok_def mkdir_def parent_error_def dn isdir_def
        dir_ok_def fun_upd_idem)
  show ?thesis
  proof (cases "fs ''.council''")
    case None
    then have "makedirs env fs sub True = mkdir_exist_ok env ?fs1 sub True"
      using makedirs_council[OF w c] t
      by (subst makedirs.simps) (simp add: sp path_exists_def)
    with m show ?thesis by simp
  next
    case (Some n)
    with c have e: "fs ''.council'' = Some Dir" by (simp add: dir_ok_def)
    then have i: "?fs1 = fs" by (simp add: fun_upd_idem)
    from e have "makedirs env fs sub True = mkdir_exist_ok env fs sub True"
      by (subst makedirs.simps) (simp add: sp path_exists_def)
    with m i show ?thesis by simp
  qed
qed

lemma add_file_after_dirs:
  assumes w: "\<And>call fs. refused env call fs = None"
    and p: "dirname p = [] \<or> fs1 (dirname p) = Some Dir" and n: "fs1 p \<noteq> Some Dir"
  shows "\<exists>m fs2 fs3 fs4.
           open_w env fs1 p (Text []) = Inr fs2
           \<and> write_text env fs2 p (strip c) = Inr fs3
           \<and> (if endswith p ''.sh'' then chmod env fs3 p (7 * 64 + 5 * 8 + 5) else Inr fs3) = Inr fs4
           \<and> fs4 = fs1(p \<mapsto> File (Text (strip c)) m)
           \<and> zip_member env fs4 p = Inr (p, Text (strip c))"
proof -
  from p have pe: "parent_error fs1 p = None" by (auto simp add: parent_error_def)
  from n obtain m where o: "open_w env fs1 p (Text []) = Inr (fs1(p \<mapsto> File (Text []) m))"
  proof (cases "fs1 p")
    case None
    then show ?thesis using that by (simp add: w open_w_def pe)
  next
    case (Some a)
    with n obtain d m where "a = File d m" by (cases a) auto
    with Some show ?thesis using that by (simp add: w open_w_def pe)
  qed
  have wr: "write_text env (fs1(p \<mapsto> File (Text []) m)) p (strip c)
            = Inr (fs1(p \<mapsto> File (Text (strip c)) m))"
    by (simp add: w write_text_def)
  show ?thesis
  proof (cases "endswith p ''.sh''")
    case True
    have "chmod env (fs1(p \<mapsto> File (Text (strip c)) m)) p (7 * 64 + 5 * 8 + 5)
          = Inr (fs1(p \<mapsto> File (Text (strip c)) (7 * 64 + 5 * 8 + 5)))"
      by (simp add: w chmod_def)
    with True o wr show ?thesis
      by (intro exI[of _ "7 * 64 + 5 * 8 + 5"] exI[of _ "fs1(p \<mapsto> File (Text []) m)"]
            exI[of _ "fs1(p \<mapsto> File (Text (strip c)) m)"]
            exI[of _ "fs1(p \<mapsto> File (Text (strip c)) (7 * 64 + 5 * 8 + 5))"])
         (simp add: w zip_member_def)
  next
    case False
    with o wr show ?thesis
      by (intro exI[of _ m] exI[of _ "fs1(p \<mapsto> File (Text []) m)"]
            exI[of _ "fs1(p \<mapsto> File (Text (strip c)) m)"]
            exI[of _ "fs1(p \<mapsto> File (Text (strip c)) m)"])
         (simp add: w zip_member_def)
  qed
qed

lemma add_file_ok:
  assumes w: "\<And>call fs. refused env call fs = None"
    and d: "dirname p = [] \<or> dirname p = ''.council/prompts'' \<or> dirname p = ''.council/scripts''"
    and nd: "p \<notin> set council_dirs"
    and ok: "list_all (dir_ok (py_fs st)) council_dirs"
    and n: "py_fs st p \<noteq> Some Dir"
  shows "\<exists>fs1 m. add_file env (p, c) st
                  = Inr (st\<lparr>py_fs := fs1(p \<mapsto> File (Text (strip c)) m),
                           py_zipf := py_zipf st @ [(p, Text (strip c))],
                           py_stdout := py_stdout st @ [(''  + Added '' @ p) @ [NL]]\<rparr>)
              \<and> (\<forall>q. q \<notin> set council_dirs \<longrightarrow> fs1 q = py_fs st q)
              \<and> (\<forall>q \<in> set council_dirs. fs1 q = py_fs st q \<or> fs1 q = Some Dir)
              \<and> (dirname p = [] \<or> fs1 (dirname p) = Some Dir)"
proof -
  define fs1 where "fs1 = (if dirname p = [] then py_fs st
                           else (py_fs st)(''.council'' \<mapsto> Dir, dirname p \<mapsto> Dir))"
  from ok have okc: "dir_ok (py_fs st) ''.council''"
    and okp: "dir_ok (py_fs st) ''.council/prompts''" and oks: "dir_ok (py_fs st) ''.council/scripts''"
    by (simp_all add: council_dirs_def)
  have mk: "(if dirname p \<noteq> [] then makedirs env (py_fs st) (dirname p) True else Inr (py_fs st)) = Inr fs1"
  proof (cases "dirname p = []")
    case True
    then show ?thesis by (simp add: fs1_def)
  next
    case False
    with d have s: "dirname p = ''.council/prompts'' \<or> dirname p = ''.council/scripts''" by simp
    with okp oks have "dir_ok (py_fs st) (dirname p)" by auto
    from makedirs_sub[OF w s okc this] False show ?thesis by (simp add: fs1_def)
  qed
  have a: "\<forall>q. q \<notin> set council_dirs \<longrightarrow> fs1 q = py_fs st q"
    using d by (auto simp add: fs1_def council_dirs_def)
  have b: "\<forall>q \<in> set council_dirs. fs1 q = py_fs st q \<or> fs1 q = Some Dir"
    by (auto simp add: fs1_def)
  have c: "dirname p = [] \<or> fs1 (dirname p) = Some Dir"
    by (auto simp add: fs1_def)
  from a nd n have n1: "fs1 p \<noteq> Some Dir" by simp
  from add_file_after_dirs[OF w c n1, of c] obtain m fs2 fs3 fs4 where
    o: "open_w env fs1 p (Text []) = Inr fs2"
    and wr: "write_text env fs2 p (strip c) = Inr fs3"
    and ch: "(if endswith p ''.sh'' then chmod env fs3 p (7 * 64 + 5 * 8 + 5) else Inr fs3) = Inr fs4"
    and f4: "fs4 = fs1(p \<mapsto> File (Text (strip c)) m)"
    and z: "zip_member env fs4 p = Inr (p, Text (strip c))"
    by blast
  have "add_file env (p, c) st
        = Inr (st\<lparr>py_fs := fs4, py_zipf := py_zipf st @ [(p, Text (strip c))],
                 py_stdout := py_stdout st @ [(''  + Added '' @ p) @ [NL]]\<rparr>)"
    unfolding add_file_def Let_def fst_conv snd_conv mk using o wr ch z
    by (simp add: py_print_def w)
  with f4 a b c show ?thesis by blast
qed

lemma add_files_ok:
  assumes w: "\<And>call fs. refused env call fs = None"
    and "distinct (map fst fl)"
    and "\<forall>p \<in> set (map fst fl).
           (dirname p = [] \<or> dirname p = ''.council/prompts'' \<or> dirname p = ''.council/scripts'')
           \<and> p \<notin> set council_dirs \<and> py_fs st p \<noteq> Some Dir"
    and "list_all (dir_ok (py_fs st)) council_dirs"
  shows "\<exists>st'. add_files env fl st = Inr st'"
  using assms(2-)
proof (induction fl arbitrary: st)
  case Nil
  then show ?case by simp
next
  case (Cons e fl)
  obtain p c where e: "e = (p, c)" by (cases e)
  from Cons.prems e have pd: "dirname p = [] \<or> dirname p = ''.council/prompts'' \<or> dirname p = ''.council/scripts''"
    and pn: "p \<notin> set council_dirs" and pf: "py_fs st p \<noteq> Some Dir"
    and pr: "p \<notin> set (map fst fl)" and dist: "distinct (map fst fl)"
    by simp_all
  from add_file_ok[OF w pd pn Cons.prems(3) pf, of c] obtain fs1 m where
    s1: "add_file env (p, c) st
                  = Inr (st\<lparr>py_fs := fs1(p \<mapsto> File (Text (strip c)) m),
                           py_zipf := py_zipf st @ [(p, Text (strip c))],
                           py_stdout := py_stdout st @ [(''  + Added '' @ p) @ [NL]]\<rparr>)"
    and a: "\<forall>q. q \<notin> set council_dirs \<longrightarrow> fs1 q = py_fs st q"
    and b: "\<forall>q \<in> set council_dirs. fs1 q = py_fs st q \<or> fs1 q = Some Dir"
    and cc: "dirname p = [] \<or> fs1 (dirname p) = Some Dir"
    by blast
  let ?st1 = "st\<lparr>py_fs := fs1(p \<mapsto> File (Text (strip c)) m),
                           py_zipf := py_zipf st @ [(p, Text (strip c))],
                           py_stdout := py_stdout st @ [(''  + Added '' @ p) @ [NL]]\<rparr>"
  have f1: "py_fs ?st1 = fs1(p \<mapsto> File (Text (strip c)) m)"
    and z1: "py_zipf ?st1 = py_zipf st @ [(p, Text (strip c))]"
    by simp_all
  have h2: "\<forall>q \<in> set (map fst fl).
           (dirname q = [] \<or> dirname q = ''.council/prompts'' \<or> dirname q = ''.council/scripts'')
           \<and> q \<notin> set council_dirs \<and> py_fs ?st1 q \<noteq> Some Dir"
  proof
    fix q assume q: "q \<in> set (map fst fl)"
    with Cons.prems(2) have 1: "dirname q = [] \<or> dirname q = ''.council/prompts'' \<or> dirname q = ''.council/scripts''"
      and 2: "q \<notin> set council_dirs" and 3: "py_fs st q \<noteq> Some Dir" by auto
    from q pr have "q \<noteq> p" by auto
    with a 2 3 have "py_fs ?st1 q \<noteq> Some Dir" by simp
    with 1 2 show "(dirname q = [] \<or> dirname q = ''.council/prompts'' \<or> dirname q = ''.council/scripts'')
           \<and> q \<notin> set council_dirs \<and> py_fs ?st1 q \<noteq> Some Dir" by blast
  qed
  have h3: "list_all (dir_ok (py_fs ?st1)) council_dirs"
    unfolding list_all_iff
  proof
    fix q assume q: "q \<in> set council_dirs"
    with pn have "q \<noteq> p" by auto
    moreover from Cons.prems(3) q have "dir_ok (py_fs st) q" by (simp add: list_all_iff)
    ultimately show "dir_ok (py_fs ?st1) q" using b q by (auto simp add: dir_ok_def)
  qed
  from Cons.IH[OF dist h2 h3] obtain st' where r: "add_files env fl ?st1 = Inr st'" by blast
  with s1 e show ?case by simp
qed

text \<open>On a system that refuses nothing, started in a directory where nothing stands in
  its way (the archive name is not a directory, \<^verbatim>\<open>.council\<close>, \<^verbatim>\<open>.council/prompts\<close> and
  \<^verbatim>\<open>.council/scripts\<close> are missing or are directories, and no path of \<^verbatim>\<open>files\<close> is a directory),
  the function returns.\<close>

lemma create_council_zip_returns:
  assumes w: "\<And>call fs. refused env call fs = None"
    and z: "fs0 ZIP_NAME \<noteq> Some Dir"
    and d: "list_all (dir_ok fs0) council_dirs"
    and f: "list_all (\<lambda>p. fs0 p \<noteq> Some Dir) (map fst files)"
  shows "\<exists>st. create_council_zip env fs0 = Inr st"
proof -
  note pf = files_paths_facts(1)[folded files_paths, unfolded list_all_iff]
  let ?st0 = "\<lparr>py_fs = fs0, py_zipf = [], py_stdout = [''Creating Council of Agents...'' @ [NL]]\<rparr>"
  have p0: "py_print env ''Creating Council of Agents...'' \<lparr>py_fs = fs0, py_zipf = [], py_stdout = []\<rparr>
            = Inr ?st0"
    by (simp add: py_print_def w)
  from z obtain m0 where o: "open_w env fs0 ZIP_NAME (Zip []) = Inr (fs0(ZIP_NAME \<mapsto> File (Zip []) m0))"
  proof (cases "fs0 ZIP_NAME")
    case None
    then show ?thesis using that by (simp add: w open_w_def parent_error_def files_paths_facts(3))
  next
    case (Some a)
    with z obtain dd m where "a = File dd m" by (cases a) auto
    with Some show ?thesis using that by (simp add: w open_w_def parent_error_def files_paths_facts(3))
  qed
  let ?fs1 = "fs0(ZIP_NAME \<mapsto> File (Zip []) m0)"
  let ?st1 = "?st0\<lparr>py_fs := ?fs1\<rparr>"
  have f1: "py_fs ?st1 = ?fs1" by simp
  have h2: "\<forall>p \<in> set (map fst files).
           (dirname p = [] \<or> dirname p = ''.council/prompts'' \<or> dirname p = ''.council/scripts'')
           \<and> p \<notin> set council_dirs \<and> py_fs ?st1 p \<noteq> Some Dir"
  proof
    fix p assume p: "p \<in> set (map fst files)"
    from pf p have 1: "dirname p = [] \<or> dirname p = ''.council/prompts'' \<or> dirname p = ''.council/scripts''"
      and 2: "p \<notin> set council_dirs" and 3: "p \<noteq> ZIP_NAME" by blast+
    from f p have "fs0 p \<noteq> Some Dir" unfolding list_all_iff by blast
    with 3 have "py_fs ?st1 p \<noteq> Some Dir" unfolding f1 by simp
    with 1 2 show "(dirname p = [] \<or> dirname p = ''.council/prompts'' \<or> dirname p = ''.council/scripts'')
           \<and> p \<notin> set council_dirs \<and> py_fs ?st1 p \<noteq> Some Dir" by blast
  qed
  have h3: "list_all (dir_ok (py_fs ?st1)) council_dirs"
    unfolding list_all_iff f1
  proof
    fix q assume q: "q \<in> set council_dirs"
    with files_paths_facts(2) have "q \<noteq> ZIP_NAME" by auto
    moreover from d q have "dir_ok fs0 q" by (simp add: list_all_iff)
    ultimately show "dir_ok ?fs1 q" by (simp add: dir_ok_def)
  qed
  from add_files_ok[OF w files_distinct h2 h3] obtain st' where
    r: "add_files env files ?st1 = Inr st'" by blast
  show ?thesis
    unfolding create_council_zip_def p0 o using r
    by (simp add: zip_close_def py_print_def w)
qed

text \<open>Two calls that raise. Where the encoding of the locale is ASCII, the write of the
  fifth file raises: the file stays empty and the archive is closed with the four members
  added before. Where \<^verbatim>\<open>run_review.sh\<close> exists and may not be written, opening it raises: the
  file keeps its text and the archive is closed with six members.\<close>

lemma ascii_locale_raises:
  "(case create_council_zip ascii_env Map.empty of
      Inl (e, st) \<Rightarrow>
        e = UnicodeEncodeError
        \<and> py_fs st ''.council/scripts/ralph.sh'' = Some (File (Text []) 420)
        \<and> (case py_fs st ZIP_NAME of
              Some (File (Zip members) m) \<Rightarrow> map fst members = take 4 (map fst files)
            | _ \<Rightarrow> False)
    | Inr st \<Rightarrow> False)"
  by code_simp

lemma read_only_file_raises:
  "(case create_council_zip read_only_env [''run_review.sh'' \<mapsto> File (Text ''old'') 292] of
      Inl (e, st) \<Rightarrow>
        e = PermissionError
        \<and> py_fs st ''run_review.sh'' = Some (File (Text ''old'') 292)
        \<and> (case py_fs st ZIP_NAME of
              Some (File (Zip members) m) \<Rightarrow> map fst members = take 6 (map fst files)
            | _ \<Rightarrow> False)
    | Inr st \<Rightarrow> False)"
  by code_simp

text \<open>
  Claim C10. Whenever \<^verbatim>\<open>create_council_zip\<close> returns, that is when none of its calls raises an
  exception, whatever the directory it was started in and whatever the system: every path
  of \<^verbatim>\<open>files\<close> is a file whose text is the stripped value, inside a directory that exists
  (the directories are made before the file is opened, and a write into a missing
  directory would have raised); and the archive holds one member per item, in the order of
  the dictionary, named by the path and holding the stripped text: the seven paths, each
  once.
\<close>

theorem create_council_zip_writes_and_archives:
  assumes "create_council_zip env fs0 = Inr st"
  shows "list_all (\<lambda>item. \<exists>m. py_fs st (fst item) = Some (File (Text (strip (snd item))) m)) files
         \<and> list_all (\<lambda>item. dirname (fst item) = [] \<or> py_fs st (dirname (fst item)) = Some Dir) files
         \<and> (\<exists>m. py_fs st ZIP_NAME
                   = Some (File (Zip (map (\<lambda>item. (fst item, Text (strip (snd item)))) files)) m))
         \<and> map fst files
             = [''.council/prompts/01_test_qa.md'', ''.council/prompts/02_structure_architect.md'',
                ''.council/prompts/03_naming_librarian.md'', ''.council/prompts/04_domain_warden.md'',
                ''.council/scripts/ralph.sh'', ''.council/scripts/run_gauntlet.sh'', ''run_review.sh'']
         \<and> distinct (map fst files)
         \<and> list_all normal_relative (map fst files)"
proof -
  note pf = files_paths_facts(1)[folded files_paths, unfolded list_all_iff]
  from create_council_zip_steps[OF assms] obtain st0 fs1 st1 st2 where
    p0: "py_print env ''Creating Council of Agents...''
             \<lparr>py_fs = fs0, py_zipf = [], py_stdout = []\<rparr> = Inr st0"
    and af: "add_files env files (st0\<lparr>py_fs := fs1\<rparr>) = Inr st1"
    and zc: "zip_close env st1 = Inr st2"
    and p2: "py_print env MSG_SUCCESS st2 = Inr st"
    by blast
  from py_print_Inr(2)[OF p0] have z0: "py_zipf (st0\<lparr>py_fs := fs1\<rparr>) = []" by simp
  from add_files_Inr[OF af files_distinct] z0 have
    rz: "py_zipf st1 = map (\<lambda>e. (fst e, Text (strip (snd e)))) files"
    and rf: "\<forall>e \<in> set files. \<exists>m. py_fs st1 (fst e) = Some (File (Text (strip (snd e))) m)"
    and rd: "\<forall>e \<in> set files. dirname (fst e) \<noteq> [] \<longrightarrow> py_fs st1 (dirname (fst e)) = Some Dir"
    by simp_all
  from zip_close_Inr[OF zc] obtain mz where
    f2: "py_fs st2 = (py_fs st1)(ZIP_NAME \<mapsto> File (Zip (py_zipf st1)) mz)" by blast
  from py_print_Inr(1)[OF p2] f2 have
    fin: "py_fs st = (py_fs st1)(ZIP_NAME \<mapsto> File (Zip (py_zipf st1)) mz)" by simp
  have other: "py_fs st q = py_fs st1 q" if "q \<noteq> ZIP_NAME" for q
    using that by (simp add: fin)
  have a: "list_all (\<lambda>item. \<exists>m. py_fs st (fst item) = Some (File (Text (strip (snd item))) m)) files"
    unfolding list_all_iff
  proof
    fix e assume e: "e \<in> set files"
    then have "fst e \<in> set (map fst files)" by simp
    with pf have "fst e \<noteq> ZIP_NAME" by blast
    from other[OF this] rf e show "\<exists>m. py_fs st (fst e) = Some (File (Text (strip (snd e))) m)"
      by simp
  qed
  have b: "list_all (\<lambda>item. dirname (fst item) = [] \<or> py_fs st (dirname (fst item)) = Some Dir) files"
    unfolding list_all_iff
  proof
    fix e assume e: "e \<in> set files"
    then have "fst e \<in> set (map fst files)" by simp
    with pf have "dirname (fst e) = [] \<or> dirname (fst e) \<in> set council_dirs"
      by (auto simp add: council_dirs_def)
    then have "dirname (fst e) = [] \<or> dirname (fst e) \<noteq> ZIP_NAME"
      using files_paths_facts(2) by auto
    with other[of "dirname (fst e)"] rd e
    show "dirname (fst e) = [] \<or> py_fs st (dirname (fst e)) = Some Dir" by auto
  qed
  have c: "\<exists>m. py_fs st ZIP_NAME
                   = Some (File (Zip (map (\<lambda>item. (fst item, Text (strip (snd item)))) files)) m)"
    using rz by (simp add: fin)
  have e: "list_all normal_relative (map fst files)"
    using files_paths_facts(1) unfolding files_paths list_all_iff by blast
  show ?thesis
    by (intro conjI a b c files_paths files_distinct e)
qed

theorem create_council_zip_writes_and_archives_witness:
  "\<exists>st. create_council_zip willing_env Map.empty = Inr st
        \<and> (\<exists>m. py_fs st ''run_review.sh'' = Some (File (Text (strip CONTENT_RUN_REVIEW_SH)) m))
        \<and> (\<exists>m. py_fs st ''.council/prompts/01_test_qa.md''
                  = Some (File (Text (strip CONTENT_01_TEST_QA)) m))
        \<and> py_fs st ''.council/prompts'' = Some Dir
        \<and> (\<exists>m. py_fs st ZIP_NAME
                  = Some (File (Zip [(''.council/prompts/01_test_qa.md'', Text (strip CONTENT_01_TEST_QA)),
                       (''.council/prompts/02_structure_architect.md'', Text (strip CONTENT_02_STRUCTURE_ARCHITECT)),
                       (''.council/prompts/03_naming_librarian.md'', Text (strip CONTENT_03_NAMING_LIBRARIAN)),
                       (''.council/prompts/04_domain_warden.md'', Text (strip CONTENT_04_DOMAIN_WARDEN)),
                       (''.council/scripts/ralph.sh'', Text (strip CONTENT_RALPH_SH)),
                       (''.council/scripts/run_gauntlet.sh'', Text (strip CONTENT_RUN_GAUNTLET_SH)),
                       (''run_review.sh'', Text (strip CONTENT_RUN_REVIEW_SH))]) m))"
proof -
  have "\<not> isl (create_council_zip willing_env Map.empty)" by code_simp
  then obtain st where r: "create_council_zip willing_env Map.empty = Inr st"
    by (cases "create_council_zip willing_env Map.empty") simp_all
  have dn: "dirname ''.council/prompts/01_test_qa.md'' = ''.council/prompts''" by code_simp
  from create_council_zip_writes_and_archives[OF r] have
    a: "list_all (\<lambda>item. \<exists>m. py_fs st (fst item) = Some (File (Text (strip (snd item))) m)) files"
    and b: "list_all (\<lambda>item. dirname (fst item) = [] \<or> py_fs st (dirname (fst item)) = Some Dir) files"
    and c: "\<exists>m. py_fs st ZIP_NAME
                     = Some (File (Zip (map (\<lambda>item. (fst item, Text (strip (snd item)))) files)) m)"
    by blast+
  from a have a1: "\<exists>m. py_fs st ''run_review.sh'' = Some (File (Text (strip CONTENT_RUN_REVIEW_SH)) m)"
    and a2: "\<exists>m. py_fs st ''.council/prompts/01_test_qa.md''
                    = Some (File (Text (strip CONTENT_01_TEST_QA)) m)"
    by (simp_all add: files_def)
  from b have b1: "py_fs st ''.council/prompts'' = Some Dir"
    by (simp add: files_def dn)
  from c have c1: "\<exists>m. py_fs st ZIP_NAME
                    = Some (File (Zip [(''.council/prompts/01_test_qa.md'', Text (strip CONTENT_01_TEST_QA)),
                         (''.council/prompts/02_structure_architect.md'', Text (strip CONTENT_02_STRUCTURE_ARCHITECT)),
                         (''.council/prompts/03_naming_librarian.md'', Text (strip CONTENT_03_NAMING_LIBRARIAN)),
                         (''.council/prompts/04_domain_warden.md'', Text (strip CONTENT_04_DOMAIN_WARDEN)),
                         (''.council/scripts/ralph.sh'', Text (strip CONTENT_RALPH_SH)),
                         (''.council/scripts/run_gauntlet.sh'', Text (strip CONTENT_RUN_GAUNTLET_SH)),
                         (''run_review.sh'', Text (strip CONTENT_RUN_REVIEW_SH))]) m)"
    by (simp add: files_def)
  from r a1 a2 b1 c1 show ?thesis by blast
qed

end
